theory Spec2Isabelle
  imports Main "HOL-Library.Word"
begin

section \<open>Wave hash aggregation: continuation, resupply and result drain\<close>

text \<open>
  A shallow embedding of \<^verbatim>\<open>velox/experimental/wave/exec/Instruction.cpp\<close>.
  Signed 32 and 64 bit quantities of the source (\<^verbatim>\<open>int32_t\<close>, \<^verbatim>\<open>int64_t\<close>) are
  modelled as \<^typ>\<open>int\<close>: signed overflow is undefined in C++, so the model agrees with
  the source wherever the source has a defined value.  Where the source relies on
  unsigned wrap-around (\<^verbatim>\<open>uint32_t offset, limit\<close> in \<^verbatim>\<open>makeResultRows\<close>) the model
  has \<^typ>\<open>32 word\<close>, and where it passes a wider integer to an \<^verbatim>\<open>int32_t\<close> parameter
  the model keeps the low 32 bits.  Pointers are addresses (\<^typ>\<open>nat\<close>), a nullable
  pointer is an \<^typ>\<open>nat option\<close>.
\<close>

subsection \<open>Integer helpers\<close>

text \<open>
  Division of the signed integers of C++ truncates towards zero, whereas \<open>div\<close> on
  \<^typ>\<open>int\<close> rounds down.  \<open>cdiv\<close> is the division of the source.  The source has no
  check against a zero divisor, where its behaviour is undefined, and neither has the
  model, where the quotient by zero is zero.
\<close>

definition cdiv :: "int \<Rightarrow> int \<Rightarrow> int" where
  "cdiv a b = sgn a * sgn b * (\<bar>a\<bar> div \<bar>b\<bar>)"

text \<open>
  A wider integer passed where the callee takes an \<^verbatim>\<open>int32_t\<close> is converted: the low 32
  bits are kept and read as a signed number.  The source does this with the \<^verbatim>\<open>int64_t\<close>
  increment that \<^verbatim>\<open>resupplyHashTable\<close> hands to \<^verbatim>\<open>restockAllocator\<close>, and with the
  size of the range list that \<^verbatim>\<open>AbstractReadAggregation::canAdvance\<close> hands to
  \<^verbatim>\<open>makeResultRows\<close>.
\<close>

definition narrow32 :: "int \<Rightarrow> int" where
  "narrow32 x = sint (word_of_int x :: 32 word)"

text \<open>
  Modelled from the spec: \<^verbatim>\<open>bits::nextPowerOfTwo\<close> (BitUtil.h, not part of the sources at
  hand) returns "the next power of two \<open>\<ge>\<close>" its argument.  \<open>nextPowerOfTwo_from p n\<close>
  doubles \<open>p\<close> until it reaches \<open>n\<close>.
\<close>

function nextPowerOfTwo_from :: "nat \<Rightarrow> nat \<Rightarrow> nat" where
  "nextPowerOfTwo_from p n = (if p = 0 \<or> n \<le> p then p else nextPowerOfTwo_from (2 * p) n)"
  by pat_completeness auto
termination
  by (relation "measure (\<lambda>(p, n). n - p)") auto

declare nextPowerOfTwo_from.simps [simp del]

definition nextPowerOfTwo :: "int \<Rightarrow> int" where
  "nextPowerOfTwo n = int (nextPowerOfTwo_from 1 (nat n))"

text \<open>
  Modelled from the spec: \<^verbatim>\<open>bits::roundUp(value, factor)\<close> (BitUtil.h), the least
  multiple of \<open>factor\<close> that is at least \<open>value\<close>; the source divides the result by
  \<open>factor\<close> to get the number of row blocks.
\<close>

definition roundUp :: "int \<Rightarrow> int \<Rightarrow> int" where
  "roundUp val factor = cdiv (val + factor - 1) factor * factor"

text \<open>
  The memory at a \<^verbatim>\<open>uint64_t*\<close> read as a sequence of bits is a function from the bit
  index.  Modelled from the spec: \<^verbatim>\<open>bits::isBitSet(bits, idx)\<close> reads bit \<open>idx\<close> and
  \<^verbatim>\<open>bits::countBits(bits, begin, end)\<close> counts the set bits with index in
  \<open>[begin, end)\<close> (BitUtil.h).
\<close>

definition isBitSet :: "(nat \<Rightarrow> bool) \<Rightarrow> int \<Rightarrow> bool" where
  "isBitSet bits idx = bits (nat idx)"

definition countBits :: "(nat \<Rightarrow> bool) \<Rightarrow> int \<Rightarrow> int \<Rightarrow> int" where
  "countBits bits begin end = int (length (filter bits [nat begin ..< nat end]))"

subsection \<open>Per-row error codes\<close>

text \<open>
  Modelled from the spec: the enumeration \<^verbatim>\<open>ErrorCode\<close> (declared outside the sources at
  hand) has the recoverable insufficient-memory code and other codes, "counted here but
  owned by other instruction kinds".
\<close>

datatype ErrorCode = kOk | kInsufficientMemory | kOtherError nat

text \<open>
  \<^verbatim>\<open>BlockStatus\<close>: the number of rows of a block and the error code of each of its rows.
  The array \<^verbatim>\<open>errors\<close> is a function from the index.
\<close>

record BlockStatus =
  bs_numRows :: int
  bs_errors :: "nat \<Rightarrow> ErrorCode"

text \<open>The inner loop of \<^verbatim>\<open>countErrors\<close>: \<^verbatim>\<open>for (j = 0; j < status[i].numRows; ++j)\<close>.\<close>

function countErrors_row :: "BlockStatus \<Rightarrow> ErrorCode \<Rightarrow> int \<Rightarrow> int \<Rightarrow> int" where
  "countErrors_row blk error j count =
     (if j < bs_numRows blk
      then countErrors_row blk error (j + 1)
             (count + (if bs_errors blk (nat j) = error then 1 else 0))
      else count)"
  by pat_completeness auto
termination
  by (relation "measure (\<lambda>(blk, error, j, count). nat (bs_numRows blk - j))") auto

declare countErrors_row.simps [simp del]

text \<open>The outer loop: \<^verbatim>\<open>for (i = 0; i < numBlocks; ++i)\<close>; \<^verbatim>\<open>status\<close> is a pointer to blocks.\<close>

function countErrors_block :: "(nat \<Rightarrow> BlockStatus) \<Rightarrow> int \<Rightarrow> ErrorCode \<Rightarrow> int \<Rightarrow> int \<Rightarrow> int" where
  "countErrors_block status numBlocks error i count =
     (if i < numBlocks
      then countErrors_block status numBlocks error (i + 1)
             (countErrors_row (status (nat i)) error 0 count)
      else count)"
  by pat_completeness auto
termination
  by (relation "measure (\<lambda>(status, numBlocks, error, i, count). nat (numBlocks - i))") auto

declare countErrors_block.simps [simp del]

definition countErrors :: "(nat \<Rightarrow> BlockStatus) \<Rightarrow> int \<Rightarrow> ErrorCode \<Rightarrow> int" where
  "countErrors status numBlocks error = countErrors_block status numBlocks error 0 0"

subsection \<open>AdvanceResult and the continuation decision of AbstractAggregation\<close>

text \<open>
  The function pointer stored in \<^verbatim>\<open>AdvanceResult::updateStatus\<close>.  The only function of
  the source that is ever stored there is \<^verbatim>\<open>resupplyHashTable\<close>.
\<close>

datatype UpdateStatus = ResupplyHashTable

text \<open>
  Modelled from the spec: the declaration of \<^verbatim>\<open>AdvanceResult\<close> (Wave.h) is not part of
  the sources at hand.  The fields are the ones the source assigns and prints
  (\<^verbatim>\<open>numRows\<close>, \<^verbatim>\<open>continueLabel\<close>, \<^verbatim>\<open>isRetry\<close>, \<^verbatim>\<open>syncDrivers\<close>, \<^verbatim>\<open>syncStreams\<close>,
  \<^verbatim>\<open>updateStatus\<close>, \<^verbatim>\<open>reason\<close>); the spec calls them row count, resume label, retry
  flag, synchronization scope, recovery callback and opaque state reference.
\<close>

record AdvanceResult =
  numRows :: int
  continueLabel :: int
  isRetry :: bool
  syncDrivers :: bool
  syncStreams :: bool
  updateStatus :: "UpdateStatus option"
  reason :: "nat option"

text \<open>
  Modelled from the spec: the value-initialised \<^verbatim>\<open>AdvanceResult\<close> written \<^verbatim>\<open>{}\<close> in the
  source, the "empty result" that means "no continuation needed": no rows, no label,
  no retry, no synchronization, null callback and null payload.
\<close>

definition AdvanceResult_init :: AdvanceResult where
  "AdvanceResult_init =
     \<lparr>numRows = 0, continueLabel = -1, isRetry = False, syncDrivers = False,
      syncStreams = False, updateStatus = None, reason = None\<rparr>"

text \<open>
  Modelled from the spec: \<^verbatim>\<open>AdvanceResult::empty()\<close>, used by \<^verbatim>\<open>toString\<close>; a result
  is empty when it asks for no rows and is no retry.
\<close>

definition empty_result :: "AdvanceResult \<Rightarrow> bool" where
  "empty_result r \<longleftrightarrow> numRows r = 0 \<and> \<not> isRetry r"

text \<open>\<^verbatim>\<open>AggregateReturn\<close>: the grid level state of a group by, one failure/distinct indicator.\<close>

record AggregateReturn =
  ar_numDistinct :: int

text \<open>
  The part of \<^verbatim>\<open>WaveStream\<close> that the source reads and writes: the row count
  (\<^verbatim>\<open>numRows()\<close>), the grid status area, the host copy of the block statuses
  (\<^verbatim>\<open>hostBlockStatus()\<close>, a pointer to the first block) and the index of the stream.
  \<^verbatim>\<open>InstructionStatus\<close> is represented by the offset of the instruction's grid state
  (\<^verbatim>\<open>reserveState\<close> hands out consecutive offsets), and the grid status area of the
  stream is a partial map from these offsets: it is undefined before the first launch.
\<close>

record WaveStream =
  ws_numRows :: int
  ws_grid :: "nat \<rightharpoonup> AggregateReturn"
  ws_hostBlockStatus :: "nat \<Rightarrow> BlockStatus"
  ws_streamIdx :: int

text \<open>
  Modelled from the spec: \<^verbatim>\<open>WaveStream::gridStatus<AggregateReturn>(status)\<close> returns the
  grid level state of the last launch, or null when no launch has occurred.
\<close>

definition gridStatus :: "WaveStream \<Rightarrow> nat \<Rightarrow> AggregateReturn option" where
  "gridStatus stream instructionStatus = ws_grid stream instructionStatus"

text \<open>
  Modelled from the spec: \<^verbatim>\<open>WaveStream::clearGridStatus<AggregateReturn>(status)\<close> clears
  the grid level state so that the next launch starts clean: the indicator is zeroed.
\<close>

definition clearGridStatus :: "WaveStream \<Rightarrow> nat \<Rightarrow> WaveStream" where
  "clearGridStatus stream instructionStatus =
     (case ws_grid stream instructionStatus of
        None \<Rightarrow> stream
      | Some g \<Rightarrow>
          stream\<lparr>ws_grid := (ws_grid stream)(instructionStatus \<mapsto> g\<lparr>ar_numDistinct := 0\<rparr>)\<rparr>)"

text \<open>
  Modelled from the spec: \<^verbatim>\<open>WaveStream::checkBlockStatuses()\<close> tallies the per-block error
  statuses for diagnostics only; it changes nothing the aggregation reads.
\<close>

definition checkBlockStatuses :: "WaveStream \<Rightarrow> WaveStream" where
  "checkBlockStatuses stream = stream"

text \<open>
  The members of \<^verbatim>\<open>AbstractAggregation\<close> that the source reads: the grouping keys (only
  their number matters), the reserved instruction status, the continue label, the id of
  the operator state, the serial of the instruction and the row size.
\<close>

record AbstractAggregation =
  keys :: "nat list"
  instructionStatus :: nat
  agg_continueLabel :: int
  agg_stateId :: nat
  agg_serial :: int
  agg_rowSize :: int

text \<open>
  \<^verbatim>\<open>AbstractAggregation::canAdvance(stream, control, state, instructionIdx)\<close>.  The stream
  is passed by reference and is returned with the result.  \<^verbatim>\<open>control\<close> and
  \<^verbatim>\<open>instructionIdx\<close> are not used by the source.
\<close>

definition canAdvance :: "AbstractAggregation \<Rightarrow> WaveStream \<Rightarrow> nat option \<Rightarrow> AdvanceResult \<times> WaveStream" where
  "canAdvance agg stream state =
     (if keys agg = [] then (AdvanceResult_init, stream)
      else
        (case gridStatus stream (instructionStatus agg) of
           None \<Rightarrow> (AdvanceResult_init, stream)
         | Some gridState \<Rightarrow>
             if ar_numDistinct gridState \<noteq> 0 then
               (let stream1 = checkBlockStatuses stream;
                    stream2 = clearGridStatus stream1 (instructionStatus agg)
                in (AdvanceResult_init
                      \<lparr>numRows := ws_numRows stream2,
                       continueLabel := agg_continueLabel agg,
                       isRetry := True,
                       syncDrivers := True,
                       updateStatus := Some ResupplyHashTable,
                       reason := state\<rparr>, stream2))
             else (AdvanceResult_init, stream)))"

subsection \<open>Allocation ranges\<close>

text \<open>
  \<^verbatim>\<open>AllocationRange\<close> with the members the source reads and writes.  \<open>deleted\<close> is the
  memory at \<open>base\<close> read as bits, the leading bitmap of logically deleted rows; the
  rows follow it from \<open>firstRowOffset\<close> up to \<open>rowOffset\<close>, and the variable length
  data lies between \<open>stringOffset\<close> and \<open>capacity\<close>.
\<close>

record AllocationRange =
  fixedFull :: bool
  base :: nat
  capacity :: int
  rowLimit :: int
  firstRowOffset :: int
  rowOffset :: int
  stringOffset :: int
  deleted :: "nat \<Rightarrow> bool"

text \<open>
  Modelled from the spec: the default constructed \<^verbatim>\<open>AllocationRange\<close>, which is also what
  a range is after its contents have been moved out ("move, not copy"): a range with no
  capacity, which can take no rows.
\<close>

definition AllocationRange_default :: AllocationRange where
  "AllocationRange_default =
     \<lparr>fixedFull = True, base = 0, capacity = 0, rowLimit = 0, firstRowOffset = 0,
      rowOffset = 0, stringOffset = 0, deleted = (\<lambda>i. False)\<rparr>"

text \<open>Modelled from the spec: \<^verbatim>\<open>AllocationRange::empty()\<close>, a range without capacity.\<close>

definition range_empty :: "AllocationRange \<Rightarrow> bool" where
  "range_empty rg \<longleftrightarrow> capacity rg = 0"

text \<open>
  Modelled from the spec: the constructor
  \<^verbatim>\<open>AllocationRange(base, capacity, rowLimit, rowSize)\<close>.  The range starts with a
  zeroed leading bitmap of one bit for each row that fits the capacity, in whole 64 bit
  words; no row and no variable length data is allocated yet.
\<close>

definition AllocationRange_new :: "nat \<Rightarrow> int \<Rightarrow> int \<Rightarrow> int \<Rightarrow> AllocationRange" where
  "AllocationRange_new b cap limit rowSize =
     (let first = cdiv (cdiv cap rowSize + 63) 64 * 8
      in \<lparr>fixedFull = False, base = b, capacity = cap, rowLimit = limit,
          firstRowOffset = first, rowOffset = first, stringOffset = cap,
          deleted = (\<lambda>i. False)\<rparr>)"

text \<open>
  Modelled from the spec: \<^verbatim>\<open>AllocationRange::availableFixed()\<close>, the bytes left for
  fixed length rows below the soft limit; nothing when concurrent writers have pushed the
  fill past the limit.
\<close>

definition range_availableFixed :: "AllocationRange \<Rightarrow> int" where
  "range_availableFixed rg =
     (if rowOffset rg > rowLimit rg then 0 else rowLimit rg - rowOffset rg)"

text \<open>
  Modelled from the spec: \<^verbatim>\<open>AllocationRange::raiseRowLimit(size)\<close> raises the soft limit
  by up to \<open>size\<close> bytes out of the capacity already reserved below the variable length
  data and returns the amount raised; a range whose limit was raised is not full any
  more.
\<close>

definition range_raiseRowLimit :: "AllocationRange \<Rightarrow> int \<Rightarrow> int \<times> AllocationRange" where
  "range_raiseRowLimit rg sz =
     (let space = stringOffset rg - rowLimit rg;
          delta = max 0 (min space sz)
      in (delta, rg\<lparr>rowLimit := rowLimit rg + delta,
                     fixedFull := (if delta > 0 then False else fixedFull rg)\<rparr>))"

text \<open>
  Modelled from the spec: \<^verbatim>\<open>AllocationRange::clearOverflows(rowSize)\<close> "resets fills to
  limits if over limit": a row fill past the limit goes back to the last row boundary
  within the limit, a variable length fill below the limit goes back to the limit.
\<close>

definition range_clearOverflows :: "AllocationRange \<Rightarrow> int \<Rightarrow> AllocationRange" where
  "range_clearOverflows rg rowSize =
     (let rg1 = (if rowOffset rg > rowLimit rg
                 then rg\<lparr>rowOffset := firstRowOffset rg
                                 + cdiv (rowLimit rg - firstRowOffset rg) rowSize * rowSize\<rparr>
                 else rg)
      in if stringOffset rg1 < rowLimit rg1 then rg1\<lparr>stringOffset := rowLimit rg1\<rparr> else rg1)"

text \<open>
  Modelled from the spec: trimming one range so that at most \<open>target\<close> bytes stay
  available for fixed length rows.
\<close>

definition range_trimRows :: "AllocationRange \<Rightarrow> int \<Rightarrow> AllocationRange" where
  "range_trimRows rg target =
     (if range_availableFixed rg > target then rg\<lparr>rowLimit := rowOffset rg + target\<rparr> else rg)"

subsection \<open>Partition allocators\<close>

text \<open>
  \<^verbatim>\<open>HashPartitionAllocator\<close>: the row size and the two ranges \<^verbatim>\<open>ranges[0]\<close> (current)
  and \<^verbatim>\<open>ranges[1]\<close> (secondary).
\<close>

record HashPartitionAllocator =
  hpa_rowSize :: int
  ranges0 :: AllocationRange
  ranges1 :: AllocationRange

text \<open>
  Modelled from the spec: \<^verbatim>\<open>HashPartitionAllocator::availableFixed()\<close>, the available
  fixed capacity of the partition, over both ranges.
\<close>

definition availableFixed :: "HashPartitionAllocator \<Rightarrow> int" where
  "availableFixed a = range_availableFixed (ranges0 a) + range_availableFixed (ranges1 a)"

text \<open>
  Modelled from the spec: \<^verbatim>\<open>HashPartitionAllocator::clearOverflows()\<close> "resets a
  partition's fill bookkeeping that raced past its limit", in both ranges.
\<close>

definition clearOverflows :: "HashPartitionAllocator \<Rightarrow> HashPartitionAllocator" where
  "clearOverflows a =
     a\<lparr>ranges0 := range_clearOverflows (ranges0 a) (hpa_rowSize a),
       ranges1 := range_clearOverflows (ranges1 a) (hpa_rowSize a)\<rparr>"

text \<open>
  Modelled from the spec: \<^verbatim>\<open>HashPartitionAllocator::raiseRowLimits(size)\<close> "first tries to
  satisfy a growth request by raising the partition's soft cap using already-reserved
  capacity, returning the amount satisfied": the current range first, the secondary range
  for what is left.
\<close>

definition raiseRowLimits :: "HashPartitionAllocator \<Rightarrow> int \<Rightarrow> int \<times> HashPartitionAllocator" where
  "raiseRowLimits a sz =
     (let r0 = range_raiseRowLimit (ranges0 a) sz;
          r1 = range_raiseRowLimit (ranges1 a) (sz - fst r0)
      in (fst r0 + fst r1, a\<lparr>ranges0 := snd r0, ranges1 := snd r1\<rparr>))"

text \<open>
  Modelled from the spec: \<^verbatim>\<open>HashPartitionAllocator::trimRows(target)\<close> "caps usable rows":
  the current range is trimmed to \<open>target\<close> bytes and the secondary range to what the
  current range leaves of them.
\<close>

definition trimRows :: "HashPartitionAllocator \<Rightarrow> int \<Rightarrow> HashPartitionAllocator" where
  "trimRows a target =
     (let rg0 = range_trimRows (ranges0 a) target;
          rg1 = range_trimRows (ranges1 a) (target - range_availableFixed rg0)
      in a\<lparr>ranges0 := rg0, ranges1 := rg1\<rparr>)"

subsection \<open>The hash table header and the operator state\<close>

text \<open>
  \<^verbatim>\<open>GpuHashTableBase\<close>: the device resident header.  \<open>buckets\<close> is the address of the
  bucket array.
\<close>

record GpuHashTableBase =
  sizeMask :: int
  partitionMask :: int
  numDistinct :: int
  maxEntries :: int
  buckets :: nat

text \<open>A buffer handed out by an arena (\<^verbatim>\<open>WaveBufferPtr\<close>): its address and its size in bytes.\<close>

record WaveBuffer =
  buf_addr :: nat
  buf_size :: int

text \<open>
  Modelled from the spec: the arena is a "bump-style allocator providing typed buffers";
  a request it cannot supply is a fatal condition.  \<open>arena_allocate\<close> takes the size in
  bytes.
\<close>

record Arena =
  arena_next :: nat
  arena_free :: int

definition arena_allocate :: "Arena \<Rightarrow> int \<Rightarrow> (WaveBuffer \<times> Arena) option" where
  "arena_allocate ar n =
     (if n < 0 \<or> arena_free ar < n then None
      else Some (\<lparr>buf_addr = arena_next ar, buf_size = n\<rparr>,
                 \<lparr>arena_next = arena_next ar + nat n, arena_free = arena_free ar - n\<rparr>))"

text \<open>The fatal conditions: the failed checks of the source and the failures of its collaborators.\<close>

datatype Fatal =
    ActiveBlockCounterNotZero
  | ArenaExhausted
  | ExecutableIsNull
  | IndexOutOfRange
  | NullDereference

text \<open>\<^verbatim>\<open>AggregationControl\<close> as filled in for the rehash.\<close>

record AggregationControl =
  ctl_head :: nat
  ctl_oldBuckets :: nat
  ctl_numOldBuckets :: int

text \<open>
  The operations on device streams are collaborators; the model records them in the order
  in which the source issues them.
\<close>

datatype DeviceOp =
    StreamFromReserve
  | PrefetchToHost nat int
  | PrefetchToDevice nat int
  | Wait
  | Memset nat int int
  | HostToDeviceAsync nat "nat list"
  | SetupAggregation AggregationControl int nat
  | ReleaseStream

text \<open>
  The device side of the world: the log of stream operations, and the global arena for
  small transfers (\<^verbatim>\<open>getSmallTransferArena()\<close>).
\<close>

record Device =
  ops :: "DeviceOp list"
  smallTransferArena :: Arena

text \<open>The compiled program of an instruction: entry points by serial, and its kernel.\<close>

record Program =
  entryPointIdxBySerial :: "int \<Rightarrow> int"
  kernel :: nat

text \<open>
  \<^verbatim>\<open>AggregateOperatorState\<close> together with the single aligned allocation it owns:
  \<open>alignedHead\<close> is its address and \<open>alignedHeadSize\<close> its size;
  \<open>debugActiveBlockCounter\<close>, \<open>numReadStreams\<close> and \<open>head_resultRowPointers\<close> are the
  members of the aggregation header at that address, \<open>hashTable\<close> is the header that
  follows it (\<^verbatim>\<open>alignedHead + 1\<close>), and \<open>allocators\<close> is the array of partition allocators
  that follows the hash table (\<^verbatim>\<open>hashTable + 1\<close>), a function from the index as the source
  reaches it through a pointer.
\<close>

record AggregateOperatorState =
  alignedHead :: nat
  alignedHeadSize :: int
  debugActiveBlockCounter :: int
  numReadStreams :: int
  head_resultRowPointers :: "nat option"
  hashTable :: GpuHashTableBase
  allocators :: "nat \<Rightarrow> HashPartitionAllocator"
  os_ranges :: "AllocationRange list"
  buffers :: "WaveBuffer list"
  arena :: Arena
  isGrouped :: bool
  isNew :: bool
  maxReadStreams :: int
  os_rowSize :: int
  rangeIdx :: int
  rowIdx :: int
  os_numRows :: int
  os_bytes :: int
  resultRowPointers :: "WaveBuffer option"
  resultRows :: "WaveBuffer option list"
  temp :: "WaveBuffer option"
  tempData :: "nat list"

text \<open>
  Constants declared outside the sources at hand, taken as parameters:
  \<^verbatim>\<open>GpuBucketMembers::kNumSlots\<close>, \<^verbatim>\<open>kBlockSize\<close> and \<^verbatim>\<open>sizeof(GpuBucketMembers)\<close>.
\<close>

record Constants =
  kNumSlots :: int
  kBlockSize :: int
  sizeofGpuBucketMembers :: int

subsection \<open>Restocking a partition and clamping the partitions\<close>

text \<open>
  The first step of \<^verbatim>\<open>restockAllocator\<close> after the row limits were raised: a current
  range that is full for fixed length rows is moved to the range list of the operator
  state, and the secondary range is moved into its place, which leaves the secondary slot
  as a moved-from range.
\<close>

definition restock_retire ::
  "AggregateOperatorState \<Rightarrow> HashPartitionAllocator
     \<Rightarrow> AggregateOperatorState \<times> HashPartitionAllocator" where
  "restock_retire state allocator =
     (if fixedFull (ranges0 allocator)
      then (state\<lparr>os_ranges := os_ranges state @ [ranges0 allocator]\<rparr>,
            allocator\<lparr>ranges0 := ranges1 allocator, ranges1 := AllocationRange_default\<rparr>)
      else (state, allocator))"

text \<open>
  The second step: a buffer of \<open>sz\<close> bytes from the arena is recorded in the buffers of the
  operator state, and a range over it, with all of it as capacity and as row limit, goes
  to the current slot if that is empty and to the secondary slot otherwise.  A failed
  allocation of the arena is fatal.
\<close>

definition restock_install ::
  "AggregateOperatorState \<Rightarrow> int \<Rightarrow> HashPartitionAllocator
     \<Rightarrow> Fatal + (AggregateOperatorState \<times> HashPartitionAllocator)" where
  "restock_install state sz allocator =
     (case arena_allocate (arena state) sz of
        None \<Rightarrow> Inl ArenaExhausted
      | Some (buffer, arena1) \<Rightarrow>
          (let state2 = state\<lparr>arena := arena1, buffers := buffers state @ [buffer]\<rparr>;
               newRange = AllocationRange_new (buf_addr buffer) sz sz (hpa_rowSize allocator)
           in if range_empty (ranges0 allocator)
              then Inr (state2, allocator\<lparr>ranges0 := newRange\<rparr>)
              else Inr (state2, allocator\<lparr>ranges1 := newRange\<rparr>)))"

text \<open>
  \<^verbatim>\<open>restockAllocator(state, size, allocator)\<close>.  The allocator is one of the allocators
  behind the hash table header; the function returns it next to the operator state, and
  the caller stores it back.
\<close>

definition restockAllocator ::
  "AggregateOperatorState \<Rightarrow> int \<Rightarrow> HashPartitionAllocator
     \<Rightarrow> Fatal + (AggregateOperatorState \<times> HashPartitionAllocator)" where
  "restockAllocator state sz allocator =
     (let raised = raiseRowLimits allocator sz;
          adjustedSize = sz - fst raised
      in if adjustedSize \<le> 0 then Inr (state, snd raised)
         else (let retired = restock_retire state (snd raised)
               in restock_install (fst retired) sz (snd retired)))"

text \<open>The body of the loop of \<^verbatim>\<open>AggregateOperatorState::setSizesToSafe\<close> for one allocator.\<close>

definition setSizesToSafe_allocator :: "int \<Rightarrow> int \<Rightarrow> HashPartitionAllocator \<Rightarrow> HashPartitionAllocator" where
  "setSizesToSafe_allocator rowSize allowedPerPartition a =
     (let availableInAllocator = cdiv (availableFixed a) rowSize
      in if availableInAllocator > allowedPerPartition
         then trimRows a (allowedPerPartition * rowSize)
         else a)"

function setSizesToSafe_loop ::
  "int \<Rightarrow> int \<Rightarrow> int \<Rightarrow> int \<Rightarrow> (nat \<Rightarrow> HashPartitionAllocator) \<Rightarrow> (nat \<Rightarrow> HashPartitionAllocator)" where
  "setSizesToSafe_loop numPartitions rowSize allowedPerPartition i allocs =
     (if i < numPartitions
      then setSizesToSafe_loop numPartitions rowSize allowedPerPartition (i + 1)
             (allocs(nat i := setSizesToSafe_allocator rowSize allowedPerPartition (allocs (nat i))))
      else allocs)"
  by pat_completeness auto
termination
  by (relation "measure (\<lambda>(numPartitions, rowSize, allowedPerPartition, i, allocs). nat (numPartitions - i))") auto

declare setSizesToSafe_loop.simps [simp del]

text \<open>\<^verbatim>\<open>AggregateOperatorState::setSizesToSafe()\<close>.\<close>

definition setSizesToSafe :: "AggregateOperatorState \<Rightarrow> AggregateOperatorState" where
  "setSizesToSafe state =
     (let numPartitions = partitionMask (hashTable state) + 1;
          rowSize = hpa_rowSize (allocators state 0);
          spaceInTable = maxEntries (hashTable state) - numDistinct (hashTable state);
          allowedPerPartition = cdiv spaceInTable numPartitions
      in state\<lparr>allocators :=
                 setSizesToSafe_loop numPartitions rowSize allowedPerPartition 0 (allocators state)\<rparr>)"

subsection \<open>resupplyHashTable\<close>

text \<open>The local lambda \<^verbatim>\<open>numSlots\<close>: the total slot capacity of the table.\<close>

definition numSlots :: "Constants \<Rightarrow> GpuHashTableBase \<Rightarrow> int" where
  "numSlots K t = (sizeMask t + 1) * kNumSlots K"

text \<open>The quantities that \<^verbatim>\<open>resupplyHashTable\<close> computes before it changes anything.\<close>

definition resupply_numBlocks :: "Constants \<Rightarrow> WaveStream \<Rightarrow> int" where
  "resupply_numBlocks K stream = cdiv (roundUp (ws_numRows stream) (kBlockSize K)) (kBlockSize K)"

definition resupply_numFailed :: "Constants \<Rightarrow> WaveStream \<Rightarrow> int" where
  "resupply_numFailed K stream =
     countErrors (ws_hostBlockStatus stream) (resupply_numBlocks K stream) kInsufficientMemory"

definition resupply_newSize :: "Constants \<Rightarrow> WaveStream \<Rightarrow> GpuHashTableBase \<Rightarrow> int" where
  "resupply_newSize K stream t = nextPowerOfTwo (resupply_numFailed K stream + numDistinct t * 2)"

definition resupply_increment :: "Constants \<Rightarrow> WaveStream \<Rightarrow> AbstractAggregation \<Rightarrow> GpuHashTableBase \<Rightarrow> int" where
  "resupply_increment K stream agg t =
     cdiv (agg_rowSize agg * (resupply_newSize K stream t - numDistinct t)) (partitionMask t + 1)"

text \<open>
  The body of the loop over the partitions: \<^verbatim>\<open>clearOverflows\<close>, then \<^verbatim>\<open>restockAllocator\<close>
  if the available fixed capacity is below the increment.  The comparison is made on the
  \<^verbatim>\<open>int64_t\<close> increment; the parameter \<^verbatim>\<open>size\<close> of \<^verbatim>\<open>restockAllocator\<close> is an
  \<^verbatim>\<open>int32_t\<close>, so the call converts the increment to 32 bits.
\<close>

definition resupply_partition :: "int \<Rightarrow> nat \<Rightarrow> AggregateOperatorState \<Rightarrow> Fatal + AggregateOperatorState" where
  "resupply_partition increment i state =
     (let allocator = clearOverflows (allocators state i)
      in if availableFixed allocator < increment
         then (case restockAllocator state (narrow32 increment) allocator of
                 Inl e \<Rightarrow> Inl e
               | Inr (state1, allocator1) \<Rightarrow>
                   Inr (state1\<lparr>allocators := (allocators state1)(i := allocator1)\<rparr>))
         else Inr (state\<lparr>allocators := (allocators state)(i := allocator)\<rparr>))"

function resupply_partitions :: "int \<Rightarrow> int \<Rightarrow> int \<Rightarrow> AggregateOperatorState \<Rightarrow> Fatal + AggregateOperatorState" where
  "resupply_partitions increment numPartitions i state =
     (if i < numPartitions
      then (case resupply_partition increment (nat i) state of
              Inl e \<Rightarrow> Inl e
            | Inr state1 \<Rightarrow> resupply_partitions increment numPartitions (i + 1) state1)
      else Inr state)"
  by pat_completeness auto
termination
  by (relation "measure (\<lambda>(increment, numPartitions, i, state). nat (numPartitions - i))") auto

declare resupply_partitions.simps [simp del]

text \<open>
  The rehash branch: the new bucket array replaces \<^verbatim>\<open>buffers[1]\<close>, it is zeroed on the
  device, and the header gets the new size mask, bucket pointer and maximum number of
  entries.  The result also carries the old bucket array and the old number of buckets.
\<close>

definition resupply_rehash ::
  "Constants \<Rightarrow> int \<Rightarrow> AggregateOperatorState \<Rightarrow> Device
     \<Rightarrow> Fatal + (AggregateOperatorState \<times> Device \<times> WaveBuffer \<times> int)" where
  "resupply_rehash K newSize state dev =
     (if length (buffers state) \<le> 1 then Inl IndexOutOfRange
      else
        (let oldBuckets = buffers state ! 1;
             numOldBuckets = sizeMask (hashTable state) + 1
         in case arena_allocate (arena state)
                   (cdiv newSize (kNumSlots K) * sizeofGpuBucketMembers K) of
              None \<Rightarrow> Inl ArenaExhausted
            | Some (buffer, arena1) \<Rightarrow>
                (let dev1 = dev\<lparr>ops := ops dev @ [Memset (buf_addr buffer) 0 (buf_size buffer)]\<rparr>;
                     state1 = state
                       \<lparr>arena := arena1,
                        buffers := (buffers state)[1 := buffer],
                        hashTable := (hashTable state)
                          \<lparr>sizeMask := cdiv newSize (kNumSlots K) - 1,
                           buckets := buf_addr buffer,
                           maxEntries := cdiv newSize 6 * 5\<rparr>\<rparr>
                 in Inr (state1, dev1, oldBuckets, numOldBuckets))))"

text \<open>
  \<^verbatim>\<open>resupplyHashTable(stream, inst)\<close>.  \<open>state\<close> is the operator state that the stream
  holds for the aggregation (\<^verbatim>\<open>stream.operatorState(agg->state->id)\<close>) and \<open>exe\<close> is
  what \<^verbatim>\<open>stream.executableByInstruction(&inst)\<close> gives, null or a program.  The
  function returns the operator state and the device, or the fatal condition it raised.
\<close>

definition resupplyHashTable ::
  "Constants \<Rightarrow> WaveStream \<Rightarrow> AbstractAggregation \<Rightarrow> Program option
     \<Rightarrow> AggregateOperatorState \<Rightarrow> Device \<Rightarrow> Fatal + (AggregateOperatorState \<times> Device)" where
  "resupplyHashTable K stream agg exe state dev =
     (let dev1 = dev\<lparr>ops := ops dev @
                   [StreamFromReserve,
                    PrefetchToHost (alignedHead state) (alignedHeadSize state), Wait]\<rparr>
      in if debugActiveBlockCounter state \<noteq> 0 then Inl ActiveBlockCounterNotZero
         else
           (let numPartitions = partitionMask (hashTable state) + 1;
                newSize = resupply_newSize K stream (hashTable state);
                increment = resupply_increment K stream agg (hashTable state)
            in case resupply_partitions increment numPartitions 0 state of
                 Inl e \<Rightarrow> Inl e
               | Inr state1 \<Rightarrow>
                   (case (if newSize > numSlots K (hashTable state1)
                          then (case resupply_rehash K newSize state1 dev1 of
                                  Inl e \<Rightarrow> Inl e
                                | Inr (state2, dev2, oldBuckets, numOldBuckets) \<Rightarrow>
                                    Inr (state2, dev2, Some (oldBuckets, numOldBuckets)))
                          else Inr (state1, dev1, None)) of
                      Inl e \<Rightarrow> Inl e
                    | Inr (state2, dev2, rehash) \<Rightarrow>
                        (let state3 = setSizesToSafe state2;
                             dev3 = dev2\<lparr>ops := ops dev2 @
                                      [PrefetchToDevice (alignedHead state3) (alignedHeadSize state3)]\<rparr>
                         in case rehash of
                              None \<Rightarrow>
                                Inr (state3, dev3\<lparr>ops := ops dev3 @ [Wait, ReleaseStream]\<rparr>)
                            | Some (oldBuckets, numOldBuckets) \<Rightarrow>
                                (case exe of
                                   None \<Rightarrow> Inl ExecutableIsNull
                                 | Some program \<Rightarrow>
                                     (let control = \<lparr>ctl_head = alignedHead state3,
                                                     ctl_oldBuckets = buf_addr oldBuckets,
                                                     ctl_numOldBuckets = numOldBuckets\<rparr>;
                                          entryPointIdx = entryPointIdxBySerial program (agg_serial agg)
                                      in Inr (state3,
                                              dev3\<lparr>ops := ops dev3 @
                                                [SetupAggregation control entryPointIdx (kernel program),
                                                 Wait, ReleaseStream]\<rparr>)))))))"

subsection \<open>Counting and listing the result rows\<close>

text \<open>
  The body of the loop of \<^verbatim>\<open>countResultRows\<close> for one range, on the pair
  \<open>(count, bytes)\<close>.
\<close>

definition countResultRows_step :: "int \<Rightarrow> int \<times> int \<Rightarrow> AllocationRange \<Rightarrow> int \<times> int" where
  "countResultRows_step rowSize acc rg =
     (let numFree = countBits (deleted rg) 0 (firstRowOffset rg * 8);
          n = cdiv (rowOffset rg - firstRowOffset rg) rowSize - numFree
      in (fst acc + n, snd acc + (n * rowSize + (capacity rg - stringOffset rg))))"

fun countResultRows_loop :: "int \<Rightarrow> int \<times> int \<Rightarrow> AllocationRange list \<Rightarrow> int \<times> int" where
  "countResultRows_loop rowSize acc [] = acc"
| "countResultRows_loop rowSize acc (rg # ranges) =
     countResultRows_loop rowSize (countResultRows_step rowSize acc rg) ranges"

definition countResultRows :: "AllocationRange list \<Rightarrow> int \<Rightarrow> int \<times> int" where
  "countResultRows ranges rowSize = countResultRows_loop rowSize (0, 0) ranges"

text \<open>
  The inner loop of \<^verbatim>\<open>makeResultRows\<close> over the rows of one range.  \<open>offset\<close> and
  \<open>limit\<close> are \<^verbatim>\<open>uint32_t\<close> and wrap around.  \<open>result\<close> is the part of the result
  array written so far, so that \<^verbatim>\<open>fill\<close> is its length.  The loop returns whether it
  left the function through \<^verbatim>\<open>return fill\<close>, the row cursor and the result; it has no
  value where the source does not leave the loop.
\<close>

partial_function (option) makeResultRows_rows ::
  "AllocationRange \<Rightarrow> int \<Rightarrow> int \<Rightarrow> 32 word \<Rightarrow> 32 word \<Rightarrow> int \<Rightarrow> nat list
     \<Rightarrow> (bool \<times> int \<times> nat list) option" where
  "makeResultRows_rows rg rowSize maxRows limit offset startRow result =
     (if offset \<le> limit then
        (if isBitSet (deleted rg) startRow
         then makeResultRows_rows rg rowSize maxRows limit
                (offset + word_of_int rowSize) (startRow + 1) result
         else
           (let result' = result @ [base rg + unat offset]
            in if int (length result') \<ge> maxRows
               then Some (True, startRow + 1, result')
               else makeResultRows_rows rg rowSize maxRows limit
                      (offset + word_of_int rowSize) (startRow + 1) result'))
      else Some (False, startRow, result))"

text \<open>The scan limit of a range: \<^verbatim>\<open>uint32_t limit = range.rowOffset - rowSize\<close>.\<close>

definition makeResultRows_limit :: "AllocationRange \<Rightarrow> int \<Rightarrow> 32 word" where
  "makeResultRows_limit rg rowSize = word_of_int (rowOffset rg - rowSize)"

text \<open>
  The outer loop over the ranges.  The value is \<open>(fill, startRange, startRow, result)\<close>:
  the returned count, the two cursor variables that the source takes by reference, and
  the filled part of the result array.  Indexing \<^verbatim>\<open>ranges\<close> outside the array has no
  value.
\<close>

partial_function (option) makeResultRows_ranges ::
  "AllocationRange list \<Rightarrow> int \<Rightarrow> int \<Rightarrow> int \<Rightarrow> int \<Rightarrow> int \<Rightarrow> nat list
     \<Rightarrow> (int \<times> int \<times> int \<times> nat list) option" where
  "makeResultRows_ranges ranges numRanges rowSize maxRows startRange startRow result =
     (if startRange < numRanges then
        (if startRange < 0 \<or> int (length ranges) \<le> startRange then None
         else
           (let rg = ranges ! nat startRange;
                offset = word_of_int (startRow * rowSize + firstRowOffset rg);
                limit = makeResultRows_limit rg rowSize
            in Option.bind
                 (makeResultRows_rows rg rowSize maxRows limit offset startRow result)
                 (\<lambda>r. if fst r
                      then Some (int (length (snd (snd r))), startRange, fst (snd r), snd (snd r))
                      else makeResultRows_ranges ranges numRanges rowSize maxRows
                             (startRange + 1) 0 (snd (snd r)))))
      else Some (int (length result), startRange, startRow, result))"

definition makeResultRows ::
  "AllocationRange list \<Rightarrow> int \<Rightarrow> int \<Rightarrow> int \<Rightarrow> int \<Rightarrow> int
     \<Rightarrow> (int \<times> int \<times> int \<times> nat list) option" where
  "makeResultRows ranges numRanges rowSize maxRows startRange startRow =
     makeResultRows_ranges ranges numRanges rowSize maxRows startRange startRow []"

subsection \<open>The grouped result drain of AbstractReadAggregation\<close>

text \<open>The member of \<^verbatim>\<open>AbstractReadAggregation\<close> that the source reads.\<close>

record AbstractReadAggregation =
  ragg_continueLabel :: int

text \<open>
  On the first continue the non-empty ranges of every partition are moved to the range
  list of the operator state, and the overflow of each moved range is cleared:
  \<open>read_moveRange\<close> is the body of the loop over \<open>j\<close>, \<open>read_movePartition\<close> its two
  rounds, \<open>read_flatten\<close> the loop over the partitions.
\<close>

definition read_moveRange ::
  "int \<Rightarrow> AllocationRange \<Rightarrow> AllocationRange list \<Rightarrow> AllocationRange \<times> AllocationRange list" where
  "read_moveRange rowSize rg rs =
     (if \<not> range_empty rg
      then (AllocationRange_default, rs @ [range_clearOverflows rg rowSize])
      else (rg, rs))"

definition read_movePartition ::
  "int \<Rightarrow> HashPartitionAllocator \<Rightarrow> AllocationRange list
     \<Rightarrow> HashPartitionAllocator \<times> AllocationRange list" where
  "read_movePartition rowSize a rs =
     (let m0 = read_moveRange rowSize (ranges0 a) rs;
          m1 = read_moveRange rowSize (ranges1 a) (snd m0)
      in (a\<lparr>ranges0 := fst m0, ranges1 := fst m1\<rparr>, snd m1))"

function read_flatten ::
  "int \<Rightarrow> int \<Rightarrow> int \<Rightarrow> (nat \<Rightarrow> HashPartitionAllocator) \<Rightarrow> AllocationRange list
     \<Rightarrow> (nat \<Rightarrow> HashPartitionAllocator) \<times> AllocationRange list" where
  "read_flatten numPartitions rowSize i allocs rs =
     (if i < numPartitions
      then (let m = read_movePartition rowSize (allocs (nat i)) rs
            in read_flatten numPartitions rowSize (i + 1) (allocs(nat i := fst m)) (snd m))
      else (allocs, rs))"
  by pat_completeness auto
termination
  by (relation "measure (\<lambda>(numPartitions, rowSize, i, allocs, rs). nat (numPartitions - i))") auto

declare read_flatten.simps [simp del]

text \<open>\<^verbatim>\<open>std::vector::resize\<close> on the per-stream buffers: new entries are null.\<close>

definition resize :: "'a option list \<Rightarrow> int \<Rightarrow> 'a option list" where
  "resize xs n = take (nat n) xs @ replicate (nat n - length xs) None"

text \<open>
  The branch \<^verbatim>\<open>if (aggState->isNew)\<close> of the grouped case.  Pointers take 8 bytes.
\<close>

definition read_setup ::
  "int \<Rightarrow> AggregateOperatorState \<Rightarrow> Device \<Rightarrow> Fatal + (AggregateOperatorState \<times> Device)" where
  "read_setup batchSize aggState dev =
     (let numPartitions = partitionMask (hashTable aggState) + 1;
          m = read_flatten numPartitions (os_rowSize aggState) 0
                (allocators aggState) (os_ranges aggState);
          rb = countResultRows (snd m) (os_rowSize aggState)
      in case arena_allocate (arena aggState) (maxReadStreams aggState * 8) of
           None \<Rightarrow> Inl ArenaExhausted
         | Some (pointers, arena1) \<Rightarrow>
             (case arena_allocate (smallTransferArena dev) ((batchSize + 1) * 8) of
                None \<Rightarrow> Inl ArenaExhausted
              | Some (tmp, transfer1) \<Rightarrow>
                  Inr (aggState
                         \<lparr>isNew := False,
                          allocators := fst m,
                          os_ranges := snd m,
                          rangeIdx := 0,
                          rowIdx := 0,
                          os_numRows := fst rb,
                          os_bytes := snd rb,
                          resultRowPointers := Some pointers,
                          arena := arena1,
                          numReadStreams := maxReadStreams aggState,
                          head_resultRowPointers := Some (buf_addr pointers),
                          resultRows := resize (resultRows aggState) (maxReadStreams aggState),
                          temp := Some tmp\<rparr>,
                       dev\<lparr>ops := ops dev @
                              [Memset (buf_addr pointers) 0 (maxReadStreams aggState * 8),
                               PrefetchToDevice (alignedHead aggState) (alignedHeadSize aggState)],
                           smallTransferArena := transfer1\<rparr>)))"

text \<open>
  The branch \<^verbatim>\<open>if (!aggState->resultRows[streamIdx])\<close>: a stream without a device visible
  buffer gets one, and its address is published in the per-stream array of the device.
\<close>

definition read_streamBuffer ::
  "int \<Rightarrow> int \<Rightarrow> AggregateOperatorState \<Rightarrow> Device \<Rightarrow> Fatal + (AggregateOperatorState \<times> Device)" where
  "read_streamBuffer batchSize streamIdx aggState dev =
     (if streamIdx < 0 \<or> int (length (resultRows aggState)) \<le> streamIdx then Inl IndexOutOfRange
      else
        (case resultRows aggState ! nat streamIdx of
           Some b \<Rightarrow> Inr (aggState, dev)
         | None \<Rightarrow>
             (case arena_allocate (arena aggState) ((batchSize + 1) * 8) of
                None \<Rightarrow> Inl ArenaExhausted
              | Some (buffer, arena1) \<Rightarrow>
                  (case resultRowPointers aggState of
                     None \<Rightarrow> Inl NullDereference
                   | Some pointers \<Rightarrow>
                       Inr (aggState
                              \<lparr>arena := arena1,
                               resultRows := (resultRows aggState)[nat streamIdx := Some buffer]\<rparr>,
                            dev\<lparr>ops := ops dev @
                                   [HostToDeviceAsync (buf_addr pointers + 8 * nat streamIdx)
                                      [buf_addr buffer]]\<rparr>)))))"

text \<open>
  The rest of the grouped case: the call of \<^verbatim>\<open>makeResultRows\<close> on the staging buffer
  \<^verbatim>\<open>temp\<close>, whose first word receives the count, and the transfer to the buffer of the
  stream.
\<close>

definition read_rows ::
  "int \<Rightarrow> int \<Rightarrow> AggregateOperatorState \<Rightarrow> Device
     \<Rightarrow> (Fatal + (AdvanceResult \<times> AggregateOperatorState \<times> Device)) option" where
  "read_rows batchSize streamIdx aggState dev =
     (case temp aggState of
        None \<Rightarrow> Some (Inl NullDereference)
      | Some tmp \<Rightarrow>
          (case makeResultRows (os_ranges aggState) (narrow32 (int (length (os_ranges aggState))))
                  (os_rowSize aggState) batchSize (rangeIdx aggState) (rowIdx aggState) of
             None \<Rightarrow> None
           | Some (n, startRange, startRow, rows) \<Rightarrow>
               (let words = nat n # rows;
                    aggState1 = aggState
                      \<lparr>rangeIdx := startRange,
                       rowIdx := startRow,
                       tempData := words @ drop (length words) (tempData aggState)\<rparr>
                in if n = 0 then Some (Inr (AdvanceResult_init, aggState1, dev))
                   else
                     (case resultRows aggState1 ! nat streamIdx of
                        None \<Rightarrow> Some (Inl NullDereference)
                      | Some buffer \<Rightarrow>
                          Some (Inr (AdvanceResult_init\<lparr>numRows := n\<rparr>, aggState1,
                                     dev\<lparr>ops := ops dev @
                                            [HostToDeviceAsync (buf_addr buffer)
                                               (take (nat (n + 1)) (tempData aggState1)),
                                             Wait]\<rparr>))))))"

text \<open>
  \<^verbatim>\<open>AbstractReadAggregation::canAdvance(stream, control, state, instructionIdx)\<close>, with
  the flag \<^verbatim>\<open>FLAGS_wave_max_reader_batch_rows\<close> as a parameter.  The mutex of the
  operator state is held from the start to the return and has no effect of its own on
  the state.  The value is \<open>None\<close> where the source does not return.
\<close>

definition read_canAdvance ::
  "int \<Rightarrow> AbstractReadAggregation \<Rightarrow> WaveStream \<Rightarrow> AggregateOperatorState \<Rightarrow> Device
     \<Rightarrow> (Fatal + (AdvanceResult \<times> AggregateOperatorState \<times> Device)) option" where
  "read_canAdvance wave_max_reader_batch_rows inst stream aggState dev =
     (let result = AdvanceResult_init;
          batchSize = wave_max_reader_batch_rows
      in if isGrouped aggState then
           (let streamIdx = ws_streamIdx stream
            in if streamIdx \<ge> maxReadStreams aggState then Some (Inr (result, aggState, dev))
               else
                 (let dev1 = dev\<lparr>ops := ops dev @ [StreamFromReserve]\<rparr>
                  in case (if isNew aggState then read_setup batchSize aggState dev1
                           else Inr (aggState, dev1)) of
                       Inl e \<Rightarrow> Some (Inl e)
                     | Inr (aggState1, dev2) \<Rightarrow>
                         (case read_streamBuffer batchSize streamIdx aggState1 dev2 of
                            Inl e \<Rightarrow> Some (Inl e)
                          | Inr (aggState2, dev3) \<Rightarrow>
                              read_rows batchSize streamIdx aggState2 dev3)))
         else if isNew aggState then
           Some (Inr (result\<lparr>numRows := 1, continueLabel := ragg_continueLabel inst\<rparr>,
                      aggState\<lparr>isNew := False\<rparr>, dev))
         else Some (Inr (result, aggState, dev)))"

subsection \<open>Notions of the specification\<close>

text \<open>
  The number of per-row error entries of one block whose code equals \<open>error\<close>, in the
  words of the specification.
\<close>

definition failedRows :: "BlockStatus \<Rightarrow> ErrorCode \<Rightarrow> nat" where
  "failedRows blk error = card {j. j < nat (bs_numRows blk) \<and> bs_errors blk j = error}"

text \<open>
  The number of row slots of a range: the rows between \<open>firstRowOffset\<close> and \<open>rowOffset\<close>.
\<close>

definition rowsIn :: "int \<Rightarrow> AllocationRange \<Rightarrow> nat" where
  "rowsIn rowSize rg = nat (cdiv (rowOffset rg - firstRowOffset rg) rowSize)"

text \<open>
  The indices of the rows of a range from row \<open>s\<close> on that the bitmap does not mark as deleted, in ascending order.
\<close>

definition liveRowsFrom :: "int \<Rightarrow> AllocationRange \<Rightarrow> nat \<Rightarrow> nat list" where
  "liveRowsFrom rowSize rg s = filter (\<lambda>i. \<not> deleted rg i) [s ..< rowsIn rowSize rg]"

text \<open>
  The address of row \<open>i\<close> of a range.
\<close>

definition addressIn :: "int \<Rightarrow> AllocationRange \<Rightarrow> nat \<Rightarrow> nat" where
  "addressIn rowSize rg i = base rg + nat (firstRowOffset rg + int i * rowSize)"

text \<open>
  A range that \<^verbatim>\<open>makeResultRows\<close> can scan without wrap-around: its offsets fit 32 bits, the rows
  start after the bitmap, and \<open>rowOffset\<close> is at least one row size.
\<close>

definition range_wf :: "int \<Rightarrow> AllocationRange \<Rightarrow> bool" where
  "range_wf rowSize rg \<longleftrightarrow>
     0 \<le> firstRowOffset rg \<and> firstRowOffset rg \<le> rowOffset rg \<and>
     rowSize \<le> rowOffset rg \<and> rowOffset rg < 2 ^ 32"

text \<open>
  The rows still to be handed out at the cursor \<open>(sr, s)\<close>, as pairs of range index and row
  index: the live rows of range \<open>sr\<close> from row \<open>s\<close> on, then the live rows of the
  later ranges, in range order.
\<close>

definition remainingRows :: "AllocationRange list \<Rightarrow> int \<Rightarrow> nat \<Rightarrow> nat \<Rightarrow> (nat \<times> nat) list" where
  "remainingRows ranges rowSize sr s =
     (if sr < length ranges
      then map (Pair sr) (liveRowsFrom rowSize (ranges ! sr) s) @
           concat (map (\<lambda>k. map (Pair k) (liveRowsFrom rowSize (ranges ! k) 0))
                     [Suc sr ..< length ranges])
      else [])"

text \<open>
  The address of a row given by range index and row index.
\<close>

definition rowAddress :: "AllocationRange list \<Rightarrow> int \<Rightarrow> nat \<times> nat \<Rightarrow> nat" where
  "rowAddress ranges rowSize p = addressIn rowSize (ranges ! fst p) (snd p)"

text \<open>
  A cursor inside the range list: \<open>sr\<close> is a range or the end of the list, and \<open>s\<close> is a
  row of range \<open>sr\<close> or its end.
\<close>

definition cursor_wf :: "AllocationRange list \<Rightarrow> int \<Rightarrow> nat \<Rightarrow> nat \<Rightarrow> bool" where
  "cursor_wf ranges rowSize sr s \<longleftrightarrow>
     sr \<le> length ranges \<and> (sr < length ranges \<longrightarrow> s \<le> rowsIn rowSize (ranges ! sr))"

text \<open>
  \<open>k\<close> successive calls of \<^verbatim>\<open>makeResultRows\<close> on the same ranges, each with a fresh
  result array and with the cursor that the call before left behind, as
  \<^verbatim>\<open>AbstractReadAggregation::canAdvance\<close> makes them with the cursor kept in the operator
  state.  The value is the list of the results of the calls and the last cursor.
\<close>

fun drain ::
  "nat \<Rightarrow> AllocationRange list \<Rightarrow> int \<Rightarrow> int \<Rightarrow> int \<Rightarrow> int
     \<Rightarrow> (nat list list \<times> int \<times> int) option" where
  "drain 0 ranges rowSize maxRows startRange startRow = Some ([], startRange, startRow)"
| "drain (Suc k) ranges rowSize maxRows startRange startRow =
     (case makeResultRows ranges (int (length ranges)) rowSize maxRows startRange startRow of
        None \<Rightarrow> None
      | Some (fill, startRange', startRow', rows) \<Rightarrow>
          (case drain k ranges rowSize maxRows startRange' startRow' of
             None \<Rightarrow> None
           | Some (outs, c) \<Rightarrow> Some (rows # outs, c)))"

text \<open>
  Range order, then row order within a range, on pairs of range index and row index.
\<close>

definition rowBefore :: "nat \<times> nat \<Rightarrow> nat \<times> nat \<Rightarrow> bool" where
  "rowBefore p q \<longleftrightarrow> fst p < fst q \<or> (fst p = fst q \<and> snd p < snd q)"


text \<open>
  The range of the scenario of the specification: ten rows of 16 bytes after a bitmap of one
  64 bit word, of which rows 0, 3 and 7 are marked deleted.
\<close>

definition scenario_range :: AllocationRange where
  "scenario_range =
     \<lparr>fixedFull = False, base = 4096, capacity = 168, rowLimit = 168, firstRowOffset = 8,
      rowOffset = 168, stringOffset = 168, deleted = (\<lambda>i. i \<in> {0, 3, 7})\<rparr>"

text \<open>
  A range like the one of the scenario in which no row has been allocated yet:
  \<open>rowOffset\<close> is still \<open>firstRowOffset\<close>, which is less than the row size.
\<close>

definition unused_range :: AllocationRange where
  "unused_range =
     \<lparr>fixedFull = False, base = 4096, capacity = 168, rowLimit = 168, firstRowOffset = 8,
      rowOffset = 8, stringOffset = 168, deleted = (\<lambda>i. False)\<rparr>"


text \<open>
  The constants of the scenarios: four slots in a bucket, blocks of 32 rows, buckets of 16 bytes.
\<close>

definition scenario_constants :: Constants where
  "scenario_constants = \<lparr>kNumSlots = 4, kBlockSize = 32, sizeofGpuBucketMembers = 16\<rparr>"

text \<open>
  The stream of the scenario of the specification: 128 rows in four blocks, of which 100 rows
  (all rows of the first three blocks and four rows of the last) failed for lack of memory.
\<close>

definition scenario_stream :: WaveStream where
  "scenario_stream =
     \<lparr>ws_numRows = 128, ws_grid = [0 \<mapsto> \<lparr>ar_numDistinct = 1\<rparr>],
      ws_hostBlockStatus = (\<lambda>b. \<lparr>bs_numRows = 32,
         bs_errors = (\<lambda>j. if b < 3 \<or> j < 4 then kInsufficientMemory else kOk)\<rparr>),
      ws_streamIdx = 0\<rparr>"

text \<open>
  The aggregation of the scenario, with one grouping key and rows of 16 bytes.
\<close>

definition scenario_aggregation :: AbstractAggregation where
  "scenario_aggregation =
     \<lparr>keys = [0], instructionStatus = 0, agg_continueLabel = 2, agg_stateId = 1,
      agg_serial = 5, agg_rowSize = 16\<rparr>"

text \<open>
  A partition of the scenario: one range of 4096 bytes at address \<open>b\<close> that holds \<open>rows\<close>
  rows of 16 bytes after its bitmap, with all the capacity open to rows, and no second
  range.
\<close>

definition scenario_partition :: "nat \<Rightarrow> int \<Rightarrow> HashPartitionAllocator" where
  "scenario_partition b rows =
     \<lparr>hpa_rowSize = 16,
      ranges0 = \<lparr>fixedFull = False, base = b, capacity = 4096, rowLimit = 4096,
                 firstRowOffset = 32, rowOffset = 32 + rows * 16, stringOffset = 4096,
                 deleted = (\<lambda>i. False)\<rparr>,
      ranges1 = AllocationRange_default\<rparr>"

text \<open>
  The operator state of the scenario: a table of 16 buckets, which is 64 slots, with 50
  distinct rows out of at most 50 entries, in two partitions with plenty of room for rows.
\<close>

definition scenario_state :: AggregateOperatorState where
  "scenario_state =
     \<lparr>alignedHead = 1024, alignedHeadSize = 512, debugActiveBlockCounter = 0,
      numReadStreams = 0, head_resultRowPointers = None,
      hashTable = \<lparr>sizeMask = 15, partitionMask = 1, numDistinct = 50, maxEntries = 50,
                    buckets = 2048\<rparr>,
      allocators = (\<lambda>i. if i = 0 then scenario_partition 8192 30 else scenario_partition 16384 20),
      os_ranges = [],
      buffers = [\<lparr>buf_addr = 1024, buf_size = 512\<rparr>, \<lparr>buf_addr = 2048, buf_size = 256\<rparr>],
      arena = \<lparr>arena_next = 65536, arena_free = 65536\<rparr>,
      isGrouped = True, isNew = True, maxReadStreams = 2, os_rowSize = 16,
      rangeIdx = 0, rowIdx = 0, os_numRows = 0, os_bytes = 0,
      resultRowPointers = None, resultRows = [], temp = None, tempData = []\<rparr>"

text \<open>
  The device of the scenario, with nothing issued yet.
\<close>

definition scenario_device :: Device where
  "scenario_device = \<lparr>ops = [], smallTransferArena = \<lparr>arena_next = 1048576, arena_free = 1048576\<rparr>\<rparr>"

text \<open>
  The compiled program of the scenario.
\<close>

definition scenario_program :: Program where
  "scenario_program = \<lparr>entryPointIdxBySerial = (\<lambda>serial. serial + 1), kernel = 77\<rparr>"

text \<open>
  The operator state of the scenario after the rehash and before the partitions are
  clamped: a new bucket array of 64 buckets, 256 slots, at most 210 entries.
\<close>

definition scenario_rehashed :: AggregateOperatorState where
  "scenario_rehashed = scenario_state
     \<lparr>arena := \<lparr>arena_next = 66560, arena_free = 64512\<rparr>,
      buffers := [\<lparr>buf_addr = 1024, buf_size = 512\<rparr>, \<lparr>buf_addr = 65536, buf_size = 1024\<rparr>],
      hashTable := \<lparr>sizeMask = 63, partitionMask = 1, numDistinct = 50, maxEntries = 210,
                     buckets = 65536\<rparr>\<rparr>"

text \<open>
  A partition whose current range is full up to its row limit, with 40 bytes reserved
  between the row limit and the variable length data.
\<close>

definition scenario_full_partition :: HashPartitionAllocator where
  "scenario_full_partition =
     \<lparr>hpa_rowSize = 16,
      ranges0 = \<lparr>fixedFull = True, base = 8192, capacity = 1024, rowLimit = 944,
                 firstRowOffset = 16, rowOffset = 944, stringOffset = 984,
                 deleted = (\<lambda>i. False)\<rparr>,
      ranges1 = AllocationRange_default\<rparr>"

text \<open>
  A partition whose current range is full with nothing in reserve, and whose secondary
  range holds four rows.
\<close>

definition scenario_retiring_partition :: HashPartitionAllocator where
  "scenario_retiring_partition =
     \<lparr>hpa_rowSize = 16,
      ranges0 = \<lparr>fixedFull = True, base = 8192, capacity = 1024, rowLimit = 1024,
                 firstRowOffset = 16, rowOffset = 1024, stringOffset = 1024,
                 deleted = (\<lambda>i. False)\<rparr>,
      ranges1 = \<lparr>fixedFull = False, base = 12288, capacity = 512, rowLimit = 512,
                 firstRowOffset = 8, rowOffset = 72, stringOffset = 512,
                 deleted = (\<lambda>i. False)\<rparr>\<rparr>"

text \<open>
  The operator state of the scenario with a first partition that is nearly full: 250 rows
  in its range of 4096 bytes, which leaves room for four more.
\<close>

definition scenario_short_state :: AggregateOperatorState where
  "scenario_short_state = scenario_state
     \<lparr>allocators := (\<lambda>i. if i = 0 then scenario_partition 8192 250 else scenario_partition 16384 20)\<rparr>"

text \<open>
  That partition after it was restocked with 1648 bytes: the new range, at the address the
  arena hands out next, is its secondary range.
\<close>

definition scenario_restocked_partition :: HashPartitionAllocator where
  "scenario_restocked_partition =
     (scenario_partition 8192 250)\<lparr>ranges1 := AllocationRange_new 65536 1648 1648 16\<rparr>"

text \<open>
  The operator state after the loop over the partitions has restocked the first partition.
\<close>

definition scenario_short_restocked :: AggregateOperatorState where
  "scenario_short_restocked = scenario_short_state
     \<lparr>arena := \<lparr>arena_next = 67184, arena_free = 63888\<rparr>,
      buffers := buffers scenario_short_state @ [\<lparr>buf_addr = 65536, buf_size = 1648\<rparr>],
      allocators := (\<lambda>i. if i = 0 then scenario_restocked_partition else scenario_partition 16384 20)\<rparr>"

text \<open>
  The same state after the rehash and before the partitions are clamped.
\<close>

definition scenario_short_rehashed :: AggregateOperatorState where
  "scenario_short_rehashed = scenario_short_restocked
     \<lparr>arena := \<lparr>arena_next = 68208, arena_free = 62864\<rparr>,
      buffers := [\<lparr>buf_addr = 1024, buf_size = 512\<rparr>, \<lparr>buf_addr = 67184, buf_size = 1024\<rparr>,
                  \<lparr>buf_addr = 65536, buf_size = 1648\<rparr>],
      hashTable := \<lparr>sizeMask = 63, partitionMask = 1, numDistinct = 50, maxEntries = 210,
                     buckets = 67184\<rparr>\<rparr>"

text \<open>
  What the loop of \<^verbatim>\<open>resupplyHashTable\<close> makes of the allocator \<open>a\<close> of a partition: the
  overflow is cleared first; then the allocator is the result of \<^verbatim>\<open>restockAllocator\<close>,
  called with the increment as a 32 bit size, if the available fixed capacity was below the
  increment, and is left alone otherwise.
\<close>

definition partition_done :: "int \<Rightarrow> HashPartitionAllocator \<Rightarrow> HashPartitionAllocator \<Rightarrow> bool" where
  "partition_done increment a a' \<longleftrightarrow>
     (if availableFixed (clearOverflows a) < increment
      then (\<exists>st st'. restockAllocator st (narrow32 increment) (clearOverflows a) = Inr (st', a'))
      else a' = clearOverflows a)"

text \<open>
  The second state has the hash table header and the aligned allocation of the first, and
  its buffers with possibly more appended.
\<close>

definition same_head :: "AggregateOperatorState \<Rightarrow> AggregateOperatorState \<Rightarrow> bool" where
  "same_head st st' \<longleftrightarrow>
     hashTable st' = hashTable st \<and> alignedHead st' = alignedHead st \<and>
     alignedHeadSize st' = alignedHeadSize st \<and>
     (\<exists>extra. buffers st' = buffers st @ extra)"

text \<open>
  The device after \<^verbatim>\<open>resupplyHashTable\<close> took a stream from the reserve and copied the
  header to the host.
\<close>

definition resupply_dev1 :: "AggregateOperatorState \<Rightarrow> Device \<Rightarrow> Device" where
  "resupply_dev1 state dev = dev\<lparr>ops := ops dev @
                   [StreamFromReserve,
                    PrefetchToHost (alignedHead state) (alignedHeadSize state), Wait]\<rparr>"

section \<open>Properties\<close>

subsection \<open>Arithmetic of the source\<close>

lemma int_le_div_iff:
  fixes i j k :: int
  assumes "0 < k"
  shows "i \<le> j div k \<longleftrightarrow> i * k \<le> j"
proof
  assume "i \<le> j div k"
  then have "i * k \<le> (j div k) * k" using assms by (simp add: mult_right_mono)
  also have "\<dots> \<le> j" using assms by (simp add: div_mult_self_is_m mult.commute pos_mod_sign
        minus_mod_eq_mult_div [symmetric])
  finally show "i * k \<le> j" .
next
  assume "i * k \<le> j"
  then have "(i * k) div k \<le> j div k" using assms by (rule zdiv_mono1)
  then show "i \<le> j div k" using assms by simp
qed

lemma narrow32_id: "- (2 ^ 31) \<le> x \<Longrightarrow> x < 2 ^ 31 \<Longrightarrow> narrow32 x = x"
  unfolding narrow32_def by (simp only: sint_sbintrunc') (simp add: signed_take_bit_int_eq_self)

lemma cdiv_nonneg: "0 \<le> a \<Longrightarrow> 0 < b \<Longrightarrow> cdiv a b = a div b"
  by (cases "a = 0") (simp_all add: cdiv_def)

lemma cdiv_nonpos:
  assumes "a \<le> 0" "0 < b"
  shows "cdiv a b \<le> 0"
proof (cases "a = 0")
  case True
  then show ?thesis by (simp add: cdiv_def)
next
  case False
  with assms have "a < 0" by simp
  have "0 \<le> \<bar>a\<bar> div \<bar>b\<bar>" using assms by (simp add: pos_imp_zdiv_nonneg_iff)
  then show ?thesis using \<open>a < 0\<close> assms by (simp add: cdiv_def)
qed

subsection \<open>Counting the failed rows and the target size\<close>

lemma countErrors_row_eq:
  "0 \<le> j \<Longrightarrow> countErrors_row blk error j count =
     count + int (card {k. nat j \<le> k \<and> k < nat (bs_numRows blk) \<and> bs_errors blk k = error})"
proof (induction blk error j count rule: countErrors_row.induct)
  case (1 blk error j count)
  show ?case
  proof (cases "j < bs_numRows blk")
    case True
    let ?S = "\<lambda>j. {k. nat j \<le> k \<and> k < nat (bs_numRows blk) \<and> bs_errors blk k = error}"
    have fin: "finite (?S (j + 1))" by simp
    have notin: "nat j \<notin> ?S (j + 1)" using "1.prems" by (auto simp: nat_add_distrib)
    have le: "nat j \<le> k \<longleftrightarrow> k = nat j \<or> nat (j + 1) \<le> k" for k
      using "1.prems" by (auto simp: nat_add_distrib)
    have card: "int (card (?S j)) = (if bs_errors blk (nat j) = error then 1 else 0) + int (card (?S (j + 1)))"
    proof (cases "bs_errors blk (nat j) = error")
      case True
      have "?S j = insert (nat j) (?S (j + 1))"
        using True \<open>j < bs_numRows blk\<close> "1.prems" by (auto simp: le)
      then have "card (?S j) = Suc (card (?S (j + 1)))"
        using card_insert_disjoint[OF fin notin] by simp
      then show ?thesis using True by simp
    next
      case False
      have "?S j = ?S (j + 1)"
        using False by (auto simp: le)
      then show ?thesis using False by simp
    qed
    note card
    moreover have "countErrors_row blk error j count =
        countErrors_row blk error (j + 1) (count + (if bs_errors blk (nat j) = error then 1 else 0))"
      using True by (subst countErrors_row.simps) simp
    moreover have "countErrors_row blk error (j + 1) (count + (if bs_errors blk (nat j) = error then 1 else 0))
        = (count + (if bs_errors blk (nat j) = error then 1 else 0)) + int (card (?S (j + 1)))"
      using "1.IH"[OF True] "1.prems" by simp
    ultimately show ?thesis by simp
  next
    case False
    then have "{k. nat j \<le> k \<and> k < nat (bs_numRows blk) \<and> bs_errors blk k = error} = {}"
      using "1.prems" by auto
    then show ?thesis using False by (subst countErrors_row.simps) simp
  qed
qed

lemma countErrors_block_eq:
  "0 \<le> i \<Longrightarrow> countErrors_block status numBlocks error i count =
     count + (\<Sum>b = nat i ..< nat numBlocks. int (failedRows (status b) error))"
proof (induction status numBlocks error i count rule: countErrors_block.induct)
  case (1 status numBlocks error i count)
  show ?case
  proof (cases "i < numBlocks")
    case True
    have row: "countErrors_row (status (nat i)) error 0 count = count + int (failedRows (status (nat i)) error)"
      using countErrors_row_eq[of 0 "status (nat i)" error count] by (simp add: failedRows_def)
    have "countErrors_block status numBlocks error i count =
          countErrors_block status numBlocks error (i + 1) (countErrors_row (status (nat i)) error 0 count)"
      using True by (subst countErrors_block.simps) simp
    also have "\<dots> = countErrors_row (status (nat i)) error 0 count
          + (\<Sum>b = nat (i + 1) ..< nat numBlocks. int (failedRows (status b) error))"
      using "1.IH"[OF True] "1.prems" by simp
    also have "\<dots> = count + (\<Sum>b = nat i ..< nat numBlocks. int (failedRows (status b) error))"
    proof -
      have "nat i < nat numBlocks" using True "1.prems" by simp
      then have "(\<Sum>b = nat i ..< nat numBlocks. int (failedRows (status b) error))
          = int (failedRows (status (nat i)) error) + (\<Sum>b = Suc (nat i) ..< nat numBlocks. int (failedRows (status b) error))"
        by (simp add: sum.atLeast_Suc_lessThan)
      moreover have "nat (i + 1) = Suc (nat i)" using "1.prems" by simp
      ultimately show ?thesis using row by simp
    qed
    finally show ?thesis .
  next
    case False
    then show ?thesis using "1.prems" by (subst countErrors_block.simps) simp
  qed
qed

lemma countErrors_eq:
  "countErrors status numBlocks error = (\<Sum>b < nat numBlocks. int (failedRows (status b) error))"
  using countErrors_block_eq[of 0 status numBlocks error 0]
  by (simp add: countErrors_def atLeast0LessThan)

lemma nextPowerOfTwo_from_spec:
  "0 < p \<Longrightarrow> \<exists>k. nextPowerOfTwo_from p n = p * 2 ^ k \<and> n \<le> p * 2 ^ k \<and> (k = 0 \<or> p * 2 ^ (k - 1) < n)"
proof (induction p n rule: nextPowerOfTwo_from.induct)
  case (1 p n)
  show ?case
  proof (cases "n \<le> p")
    case True
    then have "nextPowerOfTwo_from p n = p * 2 ^ 0 \<and> n \<le> p * 2 ^ 0"
      by (subst nextPowerOfTwo_from.simps) simp
    then show ?thesis by blast
  next
    case False
    with "1.prems" have rec: "nextPowerOfTwo_from p n = nextPowerOfTwo_from (2 * p) n"
      by (subst nextPowerOfTwo_from.simps) simp
    from "1.IH" False "1.prems" obtain k where
      k: "nextPowerOfTwo_from (2 * p) n = 2 * p * 2 ^ k" "n \<le> 2 * p * 2 ^ k"
         "k = 0 \<or> 2 * p * 2 ^ (k - 1) < n"
      by auto
    have "p * 2 ^ (Suc k - 1) < n"
    proof (cases k)
      case 0 then show ?thesis using False by simp
    next
      case (Suc m) then show ?thesis using k(3) by (simp add: mult.assoc mult.left_commute)
    qed
    then have "nextPowerOfTwo_from p n = p * 2 ^ Suc k \<and> n \<le> p * 2 ^ Suc k \<and> (Suc k = 0 \<or> p * 2 ^ (Suc k - 1) < n)"
      using rec k(1,2) by (simp add: mult.assoc mult.left_commute)
    then show ?thesis by blast
  qed
qed

lemma nextPowerOfTwo_least:
  "\<exists>k. nextPowerOfTwo x = 2 ^ k \<and> x \<le> 2 ^ k \<and> (\<forall>m. x \<le> 2 ^ m \<longrightarrow> (2::int) ^ k \<le> 2 ^ m)"
proof -
  from nextPowerOfTwo_from_spec[of 1 "nat x"] obtain k where
    k: "nextPowerOfTwo_from 1 (nat x) = 2 ^ k" "nat x \<le> 2 ^ k" "k = 0 \<or> 2 ^ (k - 1) < nat x"
    by auto
  have a: "nextPowerOfTwo x = 2 ^ k" using k(1) by (simp add: nextPowerOfTwo_def)
  have b: "x \<le> 2 ^ k"
  proof -
    have "int (nat x) \<le> int (2 ^ k)" using k(2) by (rule iffD2[OF of_nat_le_iff])
    moreover have "x \<le> int (nat x)" by simp
    ultimately have "x \<le> int (2 ^ k)" by (rule order_trans[rotated])
    then show ?thesis by simp
  qed
  have c: "(2::int) ^ k \<le> 2 ^ m" if "x \<le> 2 ^ m" for m
  proof (cases "k = 0")
    case True then show ?thesis by simp
  next
    case False
    with k(3) have "2 ^ (k - 1) < nat x" by simp
    then have "int (2 ^ (k - 1)) < int (nat x)" by (rule iffD2[OF of_nat_less_iff])
    then have "(2::int) ^ (k - 1) < x" by (simp split: if_splits)
    with that have "(2::int) ^ (k - 1) < 2 ^ m" by linarith
    then have "k - 1 < m" by simp
    then have "k \<le> m" using False by simp
    then show ?thesis by simp
  qed
  from a b c show ?thesis by blast
qed


lemma resupply_numBlocks_covers:
  assumes "0 < kBlockSize K"
  shows "{b. int b * kBlockSize K < ws_numRows stream} = {..< nat (resupply_numBlocks K stream)}"
proof -
  let ?f = "kBlockSize K" and ?n = "ws_numRows stream"
  show ?thesis
  proof (cases "0 < ?n")
    case True
    then have nn: "0 \<le> ?n + ?f - 1" using assms by simp
    have up: "roundUp ?n ?f = ((?n + ?f - 1) div ?f) * ?f"
      unfolding roundUp_def cdiv_nonneg[OF nn assms] ..
    have c0: "0 \<le> (?n + ?f - 1) div ?f" using nn assms by (simp only: pos_imp_zdiv_nonneg_iff)
    then have "0 \<le> ((?n + ?f - 1) div ?f) * ?f" using assms by simp
    then have "cdiv (((?n + ?f - 1) div ?f) * ?f) ?f = (((?n + ?f - 1) div ?f) * ?f) div ?f"
      using assms by (rule cdiv_nonneg)
    also have "\<dots> = (?n + ?f - 1) div ?f" using assms by simp
    finally have nb: "resupply_numBlocks K stream = (?n + ?f - 1) div ?f"
      unfolding resupply_numBlocks_def up .
    have "int b * ?f < ?n \<longleftrightarrow> int b < (?n + ?f - 1) div ?f" for b
    proof -
      have "int b < (?n + ?f - 1) div ?f \<longleftrightarrow> int b + 1 \<le> (?n + ?f - 1) div ?f" by auto
      also have "\<dots> \<longleftrightarrow> (int b + 1) * ?f \<le> ?n + ?f - 1" by (rule int_le_div_iff[OF assms])
      also have "\<dots> \<longleftrightarrow> int b * ?f + ?f \<le> ?n + ?f - 1" by (simp only: distrib_right mult_1)
      also have "\<dots> \<longleftrightarrow> int b * ?f < ?n" by linarith
      finally show ?thesis by simp
    qed
    then show ?thesis unfolding nb by (simp add: zless_nat_eq_int_zless lessThan_def)
  next
    case False
    have "?n + ?f - 1 < ?f" using False by simp
    have c: "cdiv (?n + ?f - 1) ?f \<le> 0"
    proof (cases "0 \<le> ?n + ?f - 1")
      case True
      with \<open>?n + ?f - 1 < ?f\<close> have "(?n + ?f - 1) div ?f = 0" by (simp add: div_pos_pos_trivial)
      then show ?thesis using True assms by (simp add: cdiv_nonneg)
    next
      case False
      then show ?thesis using assms by (intro cdiv_nonpos) simp_all
    qed
    have "cdiv (?n + ?f - 1) ?f * ?f \<le> 0"
      using c assms by (simp add: mult_le_0_iff)
    then have "roundUp ?n ?f \<le> 0" by (simp add: roundUp_def)
    then have "resupply_numBlocks K stream \<le> 0"
      unfolding resupply_numBlocks_def using assms by (intro cdiv_nonpos)
    moreover have "\<not> int b * ?f < ?n" for b
    proof -
      have "0 \<le> int b * ?f" using assms by simp
      with False show ?thesis by simp
    qed
    ultimately show ?thesis by auto
  qed
qed

lemma resupply_numFailed_entries:
  assumes "0 < kBlockSize K"
  shows "resupply_numFailed K stream =
        int (card {(b, j). int b * kBlockSize K < ws_numRows stream \<and>
                           int j < bs_numRows (ws_hostBlockStatus stream b) \<and>
                           bs_errors (ws_hostBlockStatus stream b) j = kInsufficientMemory})"
proof -
  let ?A = "{..< nat (resupply_numBlocks K stream)}"
  let ?B = "\<lambda>b. {j. j < nat (bs_numRows (ws_hostBlockStatus stream b)) \<and>
                     bs_errors (ws_hostBlockStatus stream b) j = kInsufficientMemory}"
  have "{(b, j). int b * kBlockSize K < ws_numRows stream \<and>
                 int j < bs_numRows (ws_hostBlockStatus stream b) \<and>
                 bs_errors (ws_hostBlockStatus stream b) j = kInsufficientMemory}
        = {(b, j). b \<in> {b. int b * kBlockSize K < ws_numRows stream} \<and> j \<in> ?B b}"
    by (simp add: zless_nat_eq_int_zless)
  also have "\<dots> = (SIGMA b:?A. ?B b)"
    unfolding resupply_numBlocks_covers[OF assms] by (auto simp: Sigma_def)
  finally have set: "{(b, j). int b * kBlockSize K < ws_numRows stream \<and>
                 int j < bs_numRows (ws_hostBlockStatus stream b) \<and>
                 bs_errors (ws_hostBlockStatus stream b) j = kInsufficientMemory}
        = (SIGMA b:?A. ?B b)" .
  have "card (SIGMA b:?A. ?B b) = (\<Sum>b\<in>?A. card (?B b))"
    by (rule card_SigmaI) simp_all
  then have "int (card (SIGMA b:?A. ?B b))
               = (\<Sum>b\<in>?A. int (failedRows (ws_hostBlockStatus stream b) kInsufficientMemory))"
    by (simp add: failedRows_def)
  then show ?thesis
    unfolding set resupply_numFailed_def countErrors_eq by simp
qed


text \<open>
  C1.  In \<^verbatim>\<open>resupplyHashTable\<close> the target size \<open>newSize\<close> is the next power of two
  greater than or equal to \<open>numFailed + 2 * numDistinct\<close>: it is a power of two, it is
  not below that sum, and no power of two that reaches the sum is smaller.  \<open>numFailed\<close>
  is the number of per-row error entries whose code is insufficient-memory in all the row
  blocks of the stream, which are the blocks that start below the row count of the stream
  (for a positive block size), and \<open>numDistinct\<close> is the distinct-row count of the table.
  For 100 failed rows and 50 distinct rows the target is 256.
\<close>

theorem resupply_newSize_next_power_of_two:
  "(\<exists>k. resupply_newSize K stream t = 2 ^ k \<and>
        resupply_numFailed K stream + 2 * numDistinct t \<le> 2 ^ k \<and>
        (\<forall>m. resupply_numFailed K stream + 2 * numDistinct t \<le> 2 ^ m \<longrightarrow> (2::int) ^ k \<le> 2 ^ m)) \<and>
   (0 < kBlockSize K \<longrightarrow>
      resupply_numFailed K stream =
        int (card {(b, j). int b * kBlockSize K < ws_numRows stream \<and>
                           int j < bs_numRows (ws_hostBlockStatus stream b) \<and>
                           bs_errors (ws_hostBlockStatus stream b) j = kInsufficientMemory})) \<and>
   (resupply_numFailed K stream = 100 \<and> numDistinct t = 50 \<longrightarrow> resupply_newSize K stream t = 256)"
proof -
  have eq: "resupply_numFailed K stream + 2 * numDistinct t = resupply_numFailed K stream + numDistinct t * 2"
    by simp
  have least: "\<exists>k. resupply_newSize K stream t = 2 ^ k \<and>
        resupply_numFailed K stream + 2 * numDistinct t \<le> 2 ^ k \<and>
        (\<forall>m. resupply_numFailed K stream + 2 * numDistinct t \<le> 2 ^ m \<longrightarrow> (2::int) ^ k \<le> 2 ^ m)"
    unfolding resupply_newSize_def eq by (rule nextPowerOfTwo_least)
  have count: "0 < kBlockSize K \<longrightarrow>
      resupply_numFailed K stream =
        int (card {(b, j). int b * kBlockSize K < ws_numRows stream \<and>
                           int j < bs_numRows (ws_hostBlockStatus stream b) \<and>
                           bs_errors (ws_hostBlockStatus stream b) j = kInsufficientMemory})"
    by (rule impI) (rule resupply_numFailed_entries)
  have "nextPowerOfTwo (100 + 50 * 2) = 256"
    by (simp add: nextPowerOfTwo_def nextPowerOfTwo_from.simps)
  then have scenario: "resupply_numFailed K stream = 100 \<and> numDistinct t = 50 \<longrightarrow>
      resupply_newSize K stream t = 256"
    by (simp add: resupply_newSize_def)
  from least count scenario show ?thesis by (intro conjI)
qed

text \<open>
  The witness: a stream of 130 rows in blocks of 32 rows, which makes five blocks, the
  last with two rows.  Every row of the first three blocks, the first two rows of the
  fourth block and both rows of the last block failed for lack of memory, which makes 100
  failed rows.  The table has 50 distinct rows.
\<close>

theorem resupply_newSize_next_power_of_two_witness:
  "(0::int) < kBlockSize \<lparr>kNumSlots = 4, kBlockSize = 32, sizeofGpuBucketMembers = 16\<rparr> \<and>
   resupply_numFailed \<lparr>kNumSlots = 4, kBlockSize = 32, sizeofGpuBucketMembers = 16\<rparr>
     \<lparr>ws_numRows = 130, ws_grid = Map.empty,
      ws_hostBlockStatus = (\<lambda>b. \<lparr>bs_numRows = (if b < 4 then 32 else 2),
         bs_errors = (\<lambda>j. if b < 3 \<or> j < 2 then kInsufficientMemory else kOk)\<rparr>),
      ws_streamIdx = 0\<rparr> = 100 \<and>
   int (card {(b, j). int b * 32 < (130::int) \<and> int j < (if b < 4 then 32 else 2) \<and>
                      (if b < 3 \<or> j < 2 then kInsufficientMemory else kOk) = kInsufficientMemory})
     = 100 \<and>
   numDistinct \<lparr>sizeMask = 15, partitionMask = 0, numDistinct = 50, maxEntries = 53, buckets = 0\<rparr> = 50 \<and>
   resupply_newSize \<lparr>kNumSlots = 4, kBlockSize = 32, sizeofGpuBucketMembers = 16\<rparr>
     \<lparr>ws_numRows = 130, ws_grid = Map.empty,
      ws_hostBlockStatus = (\<lambda>b. \<lparr>bs_numRows = (if b < 4 then 32 else 2),
         bs_errors = (\<lambda>j. if b < 3 \<or> j < 2 then kInsufficientMemory else kOk)\<rparr>),
      ws_streamIdx = 0\<rparr>
     \<lparr>sizeMask = 15, partitionMask = 0, numDistinct = 50, maxEntries = 53, buckets = 0\<rparr> = 256"
proof -
  let ?K = "\<lparr>kNumSlots = 4, kBlockSize = 32, sizeofGpuBucketMembers = 16\<rparr>"
  let ?stream = "\<lparr>ws_numRows = 130, ws_grid = Map.empty,
      ws_hostBlockStatus = (\<lambda>b. \<lparr>bs_numRows = (if b < 4 then 32 else 2),
         bs_errors = (\<lambda>j. if b < 3 \<or> j < 2 then kInsufficientMemory else kOk)\<rparr>),
      ws_streamIdx = 0\<rparr>"
  let ?t = "\<lparr>sizeMask = 15, partitionMask = 0, numDistinct = 50, maxEntries = 53, buckets = 0\<rparr>"
  have pos: "(0::int) < kBlockSize ?K" by simp
  have failed: "resupply_numFailed ?K ?stream = 100"
    by (simp add: resupply_numFailed_def resupply_numBlocks_def roundUp_def cdiv_def
        countErrors_def countErrors_block.simps countErrors_row.simps)
  have distinct: "numDistinct ?t = 50" by simp
  note main = resupply_newSize_next_power_of_two[of ?K ?stream ?t]
  from main[THEN conjunct2, THEN conjunct1, THEN mp, OF pos] failed
  have entries: "int (card {(b, j). int b * 32 < (130::int) \<and> int j < (if b < 4 then 32 else 2) \<and>
                      (if b < 3 \<or> j < 2 then kInsufficientMemory else kOk) = kInsufficientMemory})
     = 100"
    by simp
  from main[THEN conjunct2, THEN conjunct2, THEN mp, OF conjI[OF failed distinct]]
  have target: "resupply_newSize ?K ?stream ?t = 256" .
  from pos failed entries distinct target show ?thesis by (intro conjI)
qed

subsection \<open>Scanning the rows of the ranges\<close>

lemma row_in_range_iff:
  assumes "0 < rowSize" "firstRowOffset rg \<le> rowOffset rg"
  shows "s < rowsIn rowSize rg \<longleftrightarrow> int s * rowSize + firstRowOffset rg \<le> rowOffset rg - rowSize"
proof -
  let ?q = "(rowOffset rg - firstRowOffset rg) div rowSize"
  have q: "rowsIn rowSize rg = nat ?q"
    using assms by (simp add: rowsIn_def cdiv_nonneg)
  have "s < nat ?q \<longleftrightarrow> int s + 1 \<le> ?q" by linarith
  also have "\<dots> \<longleftrightarrow> (int s + 1) * rowSize \<le> rowOffset rg - firstRowOffset rg"
    using assms(1) by (rule int_le_div_iff)
  also have "\<dots> \<longleftrightarrow> int s * rowSize + firstRowOffset rg \<le> rowOffset rg - rowSize"
    by (simp add: algebra_simps)
  finally show ?thesis using q by simp
qed

lemma word32_of_int_le:
  fixes a b :: int
  assumes "0 \<le> a" "a < 2 ^ 32" "0 \<le> b" "b < 2 ^ 32"
  shows "(word_of_int a :: 32 word) \<le> word_of_int b \<longleftrightarrow> a \<le> b"
  using assms by (simp add: wi_le)

lemma unat_word32_of_int:
  fixes a :: int
  assumes "0 \<le> a" "a < 2 ^ 32"
  shows "unat (word_of_int a :: 32 word) = nat a"
  using assms by (simp add: unat_eq_nat_uint uint_word_of_int)

lemma liveRowsFrom_step:
  assumes "s < rowsIn rowSize rg"
  shows "liveRowsFrom rowSize rg s =
     (if deleted rg s then liveRowsFrom rowSize rg (Suc s) else s # liveRowsFrom rowSize rg (Suc s))"
  using assms by (simp add: liveRowsFrom_def upt_conv_Cons)

lemma liveRowsFrom_done: "rowsIn rowSize rg \<le> s \<Longrightarrow> liveRowsFrom rowSize rg s = []"
  by (simp add: liveRowsFrom_def)

lemma makeResultRows_rows_scan:
  assumes rs: "0 < rowSize" and wf: "range_wf rowSize rg"
  shows "s \<le> rowsIn rowSize rg \<Longrightarrow>
    (let pend = liveRowsFrom rowSize rg s;
         m = nat (max 1 (maxRows - int (length result)))
     in if m \<le> length pend
        then \<exists>s'. makeResultRows_rows rg rowSize maxRows
                    (word_of_int (rowOffset rg - rowSize))
                    (word_of_int (int s * rowSize + firstRowOffset rg)) (int s) result
                  = Some (True, int s', result @ map (addressIn rowSize rg) (take m pend)) \<and>
                  s < s' \<and> s' \<le> rowsIn rowSize rg \<and>
                  liveRowsFrom rowSize rg s' = drop m pend
        else makeResultRows_rows rg rowSize maxRows
                    (word_of_int (rowOffset rg - rowSize))
                    (word_of_int (int s * rowSize + firstRowOffset rg)) (int s) result
                  = Some (False, int (rowsIn rowSize rg), result @ map (addressIn rowSize rg) pend))"
proof -
  define call where "call = (\<lambda>s result. makeResultRows_rows rg rowSize maxRows
                    (word_of_int (rowOffset rg - rowSize))
                    (word_of_int (int s * rowSize + firstRowOffset rg)) (int s) result)"
  have F: "0 \<le> firstRowOffset rg" and FR: "firstRowOffset rg \<le> rowOffset rg"
    and RS: "rowSize \<le> rowOffset rg" and R32: "rowOffset rg < 2 ^ 32"
    using wf by (simp_all add: range_wf_def)
  have lim: "0 \<le> rowOffset rg - rowSize" "rowOffset rg - rowSize < 2 ^ 32"
    using RS R32 rs by linarith+
  have off_bounds: "0 \<le> int s * rowSize + firstRowOffset rg \<and>
                    int s * rowSize + firstRowOffset rg < 2 ^ 32"
    if "s \<le> rowsIn rowSize rg" for s
  proof -
    have "0 \<le> (rowOffset rg - firstRowOffset rg) div rowSize"
      using rs FR by (simp add: pos_imp_zdiv_nonneg_iff)
    then have "int s \<le> (rowOffset rg - firstRowOffset rg) div rowSize"
      using that rs FR by (simp add: rowsIn_def cdiv_nonneg)
    then have "int s * rowSize \<le> rowOffset rg - firstRowOffset rg"
      using int_le_div_iff[OF rs] by simp
    moreover have "0 \<le> int s * rowSize" using rs by simp
    ultimately show ?thesis using F R32 by linarith
  qed
  have cmp: "(word_of_int (int s * rowSize + firstRowOffset rg) :: 32 word)
                \<le> word_of_int (rowOffset rg - rowSize) \<longleftrightarrow> s < rowsIn rowSize rg"
    if "s \<le> rowsIn rowSize rg" for s
    using off_bounds[OF that] word32_of_int_le[OF _ _ lim, of "int s * rowSize + firstRowOffset rg"]
      row_in_range_iff[OF rs FR, of s] by blast
  have exit: "call s result = Some (False, int s, result)" if "s = rowsIn rowSize rg" for s result
  proof -
    have "\<not> (word_of_int (int s * rowSize + firstRowOffset rg) :: 32 word)
                \<le> word_of_int (rowOffset rg - rowSize)"
      using cmp[of s] that by simp
    then show ?thesis
      unfolding call_def by (subst makeResultRows_rows.simps) (simp only: if_False)
  qed
  have next_off: "(word_of_int (int s * rowSize + firstRowOffset rg) :: 32 word) + word_of_int rowSize
      = word_of_int (int (Suc s) * rowSize + firstRowOffset rg)" for s
    by (simp add: wi_hom_add algebra_simps)
  have next_row: "int s + 1 = int (Suc s)" for s by simp
  have addr: "base rg + unat (word_of_int (int s * rowSize + firstRowOffset rg) :: 32 word)
                = addressIn rowSize rg s" if "s \<le> rowsIn rowSize rg" for s
  proof -
    have "unat (word_of_int (int s * rowSize + firstRowOffset rg) :: 32 word)
            = nat (int s * rowSize + firstRowOffset rg)"
      using off_bounds[OF that] by (intro unat_word32_of_int) simp_all
    then show ?thesis by (simp add: addressIn_def add.commute)
  qed
  have skip: "call s result = call (Suc s) result"
    if "s < rowsIn rowSize rg" "deleted rg s" for s result
  proof -
    have "(word_of_int (int s * rowSize + firstRowOffset rg) :: 32 word)
                \<le> word_of_int (rowOffset rg - rowSize)"
      using cmp[of s] that(1) by simp
    then show ?thesis
      unfolding call_def using that(2)
      by (subst makeResultRows_rows.simps) (simp only: if_True isBitSet_def nat_int next_off next_row)
  qed
  have take_return: "call s result = Some (True, int (Suc s), result @ [addressIn rowSize rg s])"
    if "s < rowsIn rowSize rg" "\<not> deleted rg s"
       "int (length (result @ [addressIn rowSize rg s])) \<ge> maxRows" for s result
  proof -
    have "(word_of_int (int s * rowSize + firstRowOffset rg) :: 32 word)
                \<le> word_of_int (rowOffset rg - rowSize)"
      using cmp[of s] that(1) by simp
    moreover have "s \<le> rowsIn rowSize rg" using that(1) by simp
    ultimately show ?thesis
      unfolding call_def using that(2,3)
      by (subst makeResultRows_rows.simps)
         (simp only: if_True if_False isBitSet_def nat_int Let_def addr next_row)
  qed
  have take_continue: "call s result = call (Suc s) (result @ [addressIn rowSize rg s])"
    if "s < rowsIn rowSize rg" "\<not> deleted rg s"
       "\<not> int (length (result @ [addressIn rowSize rg s])) \<ge> maxRows" for s result
  proof -
    have "(word_of_int (int s * rowSize + firstRowOffset rg) :: 32 word)
                \<le> word_of_int (rowOffset rg - rowSize)"
      using cmp[of s] that(1) by simp
    moreover have "s \<le> rowsIn rowSize rg" using that(1) by simp
    ultimately show ?thesis
      unfolding call_def using that(2,3)
      by (subst makeResultRows_rows.simps)
         (simp only: if_True if_False isBitSet_def nat_int Let_def addr next_off next_row)
  qed
  have main: "s \<le> rowsIn rowSize rg \<Longrightarrow>
    (let pend = liveRowsFrom rowSize rg s;
         m = nat (max 1 (maxRows - int (length result)))
     in if m \<le> length pend
        then \<exists>s'. call s result
                  = Some (True, int s', result @ map (addressIn rowSize rg) (take m pend)) \<and>
                  s < s' \<and> s' \<le> rowsIn rowSize rg \<and>
                  liveRowsFrom rowSize rg s' = drop m pend
        else call s result
                  = Some (False, int (rowsIn rowSize rg), result @ map (addressIn rowSize rg) pend))"
    for s result
  proof (induction "rowsIn rowSize rg - s" arbitrary: s result)
    case 0
    then have s: "s = rowsIn rowSize rg" by simp
    have pend: "liveRowsFrom rowSize rg s = []" using s by (simp add: liveRowsFrom_done)
    show ?case using exit[OF s, of result] pend s by simp
  next
    case (Suc d)
    then have lt: "s < rowsIn rowSize rg" by simp
    have d: "d = rowsIn rowSize rg - Suc s" using Suc.hyps(2) by simp
    have le': "Suc s \<le> rowsIn rowSize rg" using lt by simp
    note IH = Suc.hyps(1)[OF d le']
    show ?case
    proof (cases "deleted rg s")
      case True
      have pend: "liveRowsFrom rowSize rg s = liveRowsFrom rowSize rg (Suc s)"
        using liveRowsFrom_step[OF lt] True by simp
      show ?thesis
        unfolding skip[OF lt True] pend using IH[of result]
        by (auto simp: Let_def intro: Suc_lessD)
    next
      case False
      let ?result' = "result @ [addressIn rowSize rg s]"
      have pend: "liveRowsFrom rowSize rg s = s # liveRowsFrom rowSize rg (Suc s)"
        using liveRowsFrom_step[OF lt] False by simp
      show ?thesis
      proof (cases "int (length ?result') \<ge> maxRows")
        case True
        have m: "nat (max 1 (maxRows - int (length result))) = 1"
          using True by simp
        have "\<exists>s'. Some (True, int (Suc s), ?result')
                 = Some (True, int s', result @ map (addressIn rowSize rg) [s]) \<and>
               s < s' \<and> s' \<le> rowsIn rowSize rg \<and>
               liveRowsFrom rowSize rg s' = liveRowsFrom rowSize rg (Suc s)"
          using le' by (intro exI[of _ "Suc s"]) simp
        then show ?thesis
          unfolding pend Let_def m take_return[OF lt False True] by simp
      next
        case cont: False
        have m: "nat (max 1 (maxRows - int (length result)))
                 = Suc (nat (max 1 (maxRows - int (length ?result'))))"
          using cont by simp
        show ?thesis
          unfolding take_continue[OF lt False cont] pend m using IH[of ?result']
          by (auto simp: Let_def intro: Suc_lessD)
      qed
    qed
  qed
  assume "s \<le> rowsIn rowSize rg"
  from main[OF this, of result] show ?thesis unfolding call_def .
qed

lemma remainingRows_next:
  assumes "sr < length ranges"
  shows "remainingRows ranges rowSize sr s =
           map (Pair sr) (liveRowsFrom rowSize (ranges ! sr) s) @ remainingRows ranges rowSize (Suc sr) 0"
proof (cases "Suc sr < length ranges")
  case True
  then have "[Suc sr ..< length ranges] = Suc sr # [Suc (Suc sr) ..< length ranges]"
    by (simp add: upt_conv_Cons)
  then show ?thesis using assms True by (simp add: remainingRows_def)
next
  case False
  then show ?thesis using assms by (simp add: remainingRows_def)
qed

lemma map_rowAddress_Pair:
  "map (rowAddress ranges rowSize) (map (Pair sr) xs) = map (addressIn rowSize (ranges ! sr)) xs"
  by (simp add: rowAddress_def)

lemma makeResultRows_ranges_scan:
  assumes rs: "0 < rowSize" and wf: "\<forall>rg \<in> set ranges. range_wf rowSize rg"
  shows "cursor_wf ranges rowSize sr s \<Longrightarrow>
    (let pend = remainingRows ranges rowSize sr s;
         m = nat (max 1 (maxRows - int (length result)));
         out = result @ map (rowAddress ranges rowSize) (take m pend)
     in \<exists>sr' s'. makeResultRows_ranges ranges (int (length ranges)) rowSize maxRows
                     (int sr) (int s) result
                   = Some (int (length out), int sr', int s', out) \<and>
                 cursor_wf ranges rowSize sr' s' \<and>
                 remainingRows ranges rowSize sr' s' = drop m pend)"
proof -
  define call where "call = (\<lambda>sr s result.
     makeResultRows_ranges ranges (int (length ranges)) rowSize maxRows (int sr) (int s) result)"
  have finish: "call sr s result = Some (int (length result), int sr, int s, result)"
    if "sr = length ranges" for sr s result
    unfolding call_def using that by (subst makeResultRows_ranges.simps) simp
  have step: "call sr s result =
      Option.bind (makeResultRows_rows (ranges ! sr) rowSize maxRows
                     (word_of_int (rowOffset (ranges ! sr) - rowSize))
                     (word_of_int (int s * rowSize + firstRowOffset (ranges ! sr))) (int s) result)
        (\<lambda>r. if fst r then Some (int (length (snd (snd r))), int sr, fst (snd r), snd (snd r))
             else call (Suc sr) 0 (snd (snd r)))"
    if "sr < length ranges" for sr s result
  proof -
    show ?thesis
      unfolding call_def using that
      by (subst makeResultRows_ranges.simps)
         (simp add: Let_def add.commute makeResultRows_limit_def cong del: if_weak_cong)
  qed
  have main: "cursor_wf ranges rowSize sr s \<Longrightarrow>
    (let pend = remainingRows ranges rowSize sr s;
         m = nat (max 1 (maxRows - int (length result)));
         out = result @ map (rowAddress ranges rowSize) (take m pend)
     in \<exists>sr' s'. call sr s result = Some (int (length out), int sr', int s', out) \<and>
                 cursor_wf ranges rowSize sr' s' \<and>
                 remainingRows ranges rowSize sr' s' = drop m pend)" for sr s result
  proof (induction "length ranges - sr" arbitrary: sr s result)
    case 0
    then have sr: "sr = length ranges" by (simp add: cursor_wf_def)
    have "remainingRows ranges rowSize sr s = []" using sr by (simp add: remainingRows_def)
    then show ?case using finish[OF sr, of s result] "0.prems" by (auto simp: Let_def)
  next
    case (Suc d)
    then have lt: "sr < length ranges" by simp
    let ?rg = "ranges ! sr"
    have rgwf: "range_wf rowSize ?rg" using wf lt by simp
    have sle: "s \<le> rowsIn rowSize ?rg" using Suc.prems lt by (simp add: cursor_wf_def)
    let ?pr = "liveRowsFrom rowSize ?rg s"
    let ?rest = "remainingRows ranges rowSize (Suc sr) 0"
    let ?m = "nat (max 1 (maxRows - int (length result)))"
    have pend: "remainingRows ranges rowSize sr s = map (Pair sr) ?pr @ ?rest"
      by (rule remainingRows_next[OF lt])
    note inner = makeResultRows_rows_scan[OF rs rgwf sle, of maxRows result, unfolded Let_def]
    show ?case
    proof (cases "?m \<le> length ?pr")
      case True
      with inner obtain s' where
        r: "makeResultRows_rows ?rg rowSize maxRows (word_of_int (rowOffset ?rg - rowSize))
              (word_of_int (int s * rowSize + firstRowOffset ?rg)) (int s) result
            = Some (True, int s', result @ map (addressIn rowSize ?rg) (take ?m ?pr))"
        and s': "s' \<le> rowsIn rowSize ?rg"
        and rem: "liveRowsFrom rowSize ?rg s' = drop ?m ?pr"
        by auto
      have tk: "take ?m (map (Pair sr) ?pr @ ?rest) = map (Pair sr) (take ?m ?pr)"
        using True by (simp add: take_map)
      have dr: "drop ?m (map (Pair sr) ?pr @ ?rest) = map (Pair sr) (drop ?m ?pr) @ ?rest"
        using True by (simp add: drop_map)
      have c: "call sr s result =
                 Some (int (length (result @ map (addressIn rowSize ?rg) (take ?m ?pr))), int sr, int s',
                       result @ map (addressIn rowSize ?rg) (take ?m ?pr))"
        unfolding step[OF lt] r by simp
      have w: "cursor_wf ranges rowSize sr s'" using lt s' by (simp add: cursor_wf_def)
      have rr: "remainingRows ranges rowSize sr s' = drop ?m (remainingRows ranges rowSize sr s)"
        unfolding pend dr remainingRows_next[OF lt, of rowSize s'] rem ..
      show ?thesis
        unfolding Let_def pend tk map_rowAddress_Pair
        using c w rr[unfolded pend] by blast
    next
      case False
      with inner have
        r: "makeResultRows_rows ?rg rowSize maxRows (word_of_int (rowOffset ?rg - rowSize))
              (word_of_int (int s * rowSize + firstRowOffset ?rg)) (int s) result
            = Some (False, int (rowsIn rowSize ?rg), result @ map (addressIn rowSize ?rg) ?pr)"
        by auto
      let ?result' = "result @ map (addressIn rowSize ?rg) ?pr"
      let ?m' = "nat (max 1 (maxRows - int (length ?result')))"
      have m': "?m' = ?m - length ?pr" using False by auto
      have d: "d = length ranges - Suc sr" using Suc.hyps(2) by simp
      have w0: "cursor_wf ranges rowSize (Suc sr) 0" using lt by (simp add: cursor_wf_def)
      from Suc.hyps(1)[OF d w0, of ?result', unfolded Let_def] obtain sr' s' where
        c': "call (Suc sr) 0 ?result'
              = Some (int (length (?result' @ map (rowAddress ranges rowSize) (take ?m' ?rest))),
                      int sr', int s', ?result' @ map (rowAddress ranges rowSize) (take ?m' ?rest))"
        and w: "cursor_wf ranges rowSize sr' s'"
        and rr: "remainingRows ranges rowSize sr' s' = drop ?m' ?rest"
        by auto
      have tk: "take ?m (map (Pair sr) ?pr @ ?rest) = map (Pair sr) ?pr @ take ?m' ?rest"
        unfolding m' using False by simp
      have dr: "drop ?m (map (Pair sr) ?pr @ ?rest) = drop ?m' ?rest"
        unfolding m' using False by simp
      have c: "call sr s result = call (Suc sr) 0 ?result'"
        unfolding step[OF lt] r by simp
      have out: "result @ map (rowAddress ranges rowSize) (map (Pair sr) ?pr @ take ?m' ?rest)
                 = ?result' @ map (rowAddress ranges rowSize) (take ?m' ?rest)"
        by (simp add: rowAddress_def)
      show ?thesis
        unfolding Let_def pend tk dr out c
        using c' w rr by blast
    qed
  qed
  assume "cursor_wf ranges rowSize sr s"
  from main[OF this, of result] show ?thesis unfolding call_def .
qed

lemma makeResultRows_call:
  assumes rs: "0 < rowSize" and wf: "\<forall>rg \<in> set ranges. range_wf rowSize rg"
    and cw: "cursor_wf ranges rowSize sr s"
  shows "\<exists>sr' s'. makeResultRows ranges (int (length ranges)) rowSize maxRows (int sr) (int s)
           = Some (int (length (take (nat (max 1 maxRows)) (remainingRows ranges rowSize sr s))),
                   int sr', int s',
                   map (rowAddress ranges rowSize)
                     (take (nat (max 1 maxRows)) (remainingRows ranges rowSize sr s))) \<and>
         cursor_wf ranges rowSize sr' s' \<and>
         remainingRows ranges rowSize sr' s'
           = drop (nat (max 1 maxRows)) (remainingRows ranges rowSize sr s)"
  using makeResultRows_ranges_scan[OF rs wf cw, of maxRows "[]"]
  by (simp add: makeResultRows_def Let_def)

lemma drain_remaining:
  assumes rs: "0 < rowSize" and wf: "\<forall>rg \<in> set ranges. range_wf rowSize rg"
  shows "cursor_wf ranges rowSize sr s \<Longrightarrow>
     \<exists>sr' s'. drain k ranges rowSize maxRows (int sr) (int s)
        = Some (map (\<lambda>j. map (rowAddress ranges rowSize)
                        (take (nat (max 1 maxRows))
                           (drop (j * nat (max 1 maxRows)) (remainingRows ranges rowSize sr s))))
                  [0..<k], int sr', int s') \<and>
        cursor_wf ranges rowSize sr' s' \<and>
        remainingRows ranges rowSize sr' s'
          = drop (k * nat (max 1 maxRows)) (remainingRows ranges rowSize sr s)"
proof (induction k arbitrary: sr s)
  case 0
  then show ?case by auto
next
  case (Suc k)
  let ?m = "nat (max 1 maxRows)"
  let ?pend = "remainingRows ranges rowSize sr s"
  from makeResultRows_call[OF rs wf Suc.prems, of maxRows] obtain sr1 s1 where
    c: "makeResultRows ranges (int (length ranges)) rowSize maxRows (int sr) (int s)
         = Some (int (length (take ?m ?pend)), int sr1, int s1,
                 map (rowAddress ranges rowSize) (take ?m ?pend))"
    and w1: "cursor_wf ranges rowSize sr1 s1"
    and r1: "remainingRows ranges rowSize sr1 s1 = drop ?m ?pend"
    by blast
  from Suc.IH[OF w1] obtain sr' s' where
    d: "drain k ranges rowSize maxRows (int sr1) (int s1)
        = Some (map (\<lambda>j. map (rowAddress ranges rowSize)
                        (take ?m (drop (j * ?m) (remainingRows ranges rowSize sr1 s1))))
                  [0..<k], int sr', int s')"
    and w': "cursor_wf ranges rowSize sr' s'"
    and r': "remainingRows ranges rowSize sr' s' = drop (k * ?m) (remainingRows ranges rowSize sr1 s1)"
    by blast
  have outs: "map (\<lambda>j. map (rowAddress ranges rowSize) (take ?m (drop (j * ?m) ?pend))) [0..<Suc k]
      = map (rowAddress ranges rowSize) (take ?m ?pend) #
        map (\<lambda>j. map (rowAddress ranges rowSize) (take ?m (drop (j * ?m) (drop ?m ?pend)))) [0..<k]"
    by (simp only: map_upt_Suc) (simp add: add.commute)
  have "drain (Suc k) ranges rowSize maxRows (int sr) (int s)
        = Some (map (\<lambda>j. map (rowAddress ranges rowSize) (take ?m (drop (j * ?m) ?pend))) [0..<Suc k],
                int sr', int s')"
    unfolding outs using c d r1 by simp
  moreover have "remainingRows ranges rowSize sr' s' = drop (Suc k * ?m) ?pend"
    using r' r1 by (simp add: add.commute)
  ultimately show ?case using w' by blast
qed

lemma set_liveRowsFrom:
  "set (liveRowsFrom rowSize rg s) = {i. s \<le> i \<and> i < rowsIn rowSize rg \<and> \<not> deleted rg i}"
  by (auto simp: liveRowsFrom_def)

lemma sorted_liveRowsFrom: "sorted_wrt (<) (liveRowsFrom rowSize rg s)"
  by (simp add: liveRowsFrom_def sorted_wrt_filter)

lemma set_remainingRows:
  "cursor_wf ranges rowSize sr s \<Longrightarrow> set (remainingRows ranges rowSize sr s) =
     {(r, i). r < length ranges \<and> i < rowsIn rowSize (ranges ! r) \<and> \<not> deleted (ranges ! r) i \<and>
              (sr < r \<or> (sr = r \<and> s \<le> i))}"
  by (auto simp: remainingRows_def set_liveRowsFrom cursor_wf_def)

lemma sorted_remainingRows:
  "sorted_wrt rowBefore (remainingRows ranges rowSize sr s)"
proof (induction "length ranges - sr" arbitrary: sr s)
  case 0
  then show ?case by (simp add: remainingRows_def)
next
  case (Suc d)
  then have lt: "sr < length ranges" by simp
  have d: "d = length ranges - Suc sr" using Suc.hyps(2) by simp
  have 1: "sorted_wrt rowBefore (map (Pair sr) (liveRowsFrom rowSize (ranges ! sr) s))"
    using sorted_liveRowsFrom[of rowSize "ranges ! sr" s]
    by (simp add: sorted_wrt_map rowBefore_def)
  have 2: "sorted_wrt rowBefore (remainingRows ranges rowSize (Suc sr) 0)"
    by (rule Suc.hyps(1)[OF d])
  have 3: "\<forall>p \<in> set (map (Pair sr) (liveRowsFrom rowSize (ranges ! sr) s)).
           \<forall>q \<in> set (remainingRows ranges rowSize (Suc sr) 0). rowBefore p q"
    by (auto simp: remainingRows_def rowBefore_def)
  show ?case
    unfolding remainingRows_next[OF lt] using 1 2 3 by (simp add: sorted_wrt_append)
qed

lemma concat_batches:
  "concat (map (\<lambda>j. take m (drop (j * m) xs)) [0..<k]) = take (k * m) xs"
proof (induction k)
  case 0
  then show ?case by simp
next
  case (Suc k)
  have "take (k * m + m) xs = take (k * m) xs @ take m (drop (k * m) xs)"
    by (rule take_add)
  then show ?case using Suc by (simp add: add.commute)
qed

lemma scenario_calls:
  "makeResultRows [scenario_range] 1 16 5 0 0 = Some (5, 0, 7, [4120, 4136, 4168, 4184, 4200])"
  "makeResultRows [scenario_range] 1 16 5 0 7 = Some (2, 1, 0, [4232, 4248])"
  "makeResultRows [scenario_range] 1 16 5 1 0 = Some (0, 1, 0, [])"
  unfolding makeResultRows_def scenario_range_def
  by (simp_all add: makeResultRows_ranges.simps makeResultRows_rows.simps isBitSet_def
      makeResultRows_limit_def)

lemma scenario_drain:
  "drain 3 [scenario_range] 16 5 0 0
     = Some ([4120, 4136, 4168, 4184, 4200] # [4232, 4248] # [] # [], 1, 0)"
proof -
  have 3: "3 = Suc (Suc (Suc 0))" by simp
  show ?thesis unfolding 3 by (simp add: scenario_calls)
qed

lemma remainingRows_in_range:
  assumes rs: "0 < rowSize"
    and wf: "\<forall>rg \<in> set ranges. 0 \<le> firstRowOffset rg \<and> firstRowOffset rg \<le> rowOffset rg"
    and p: "p \<in> set (remainingRows ranges rowSize sr s)"
  shows "fst p < length ranges \<and>
         int (base (ranges ! fst p)) + firstRowOffset (ranges ! fst p)
           \<le> int (rowAddress ranges rowSize p) \<and>
         int (rowAddress ranges rowSize p)
           \<le> int (base (ranges ! fst p)) + rowOffset (ranges ! fst p) - rowSize"
proof -
  obtain r i where pi: "p = (r, i)" by (cases p)
  from p have r: "r < length ranges" and i: "i < rowsIn rowSize (ranges ! r)"
    unfolding pi by (auto simp: remainingRows_def set_liveRowsFrom split: if_splits)
  let ?rg = "ranges ! r"
  have rg: "0 \<le> firstRowOffset ?rg" "firstRowOffset ?rg \<le> rowOffset ?rg"
    using wf r by simp_all
  have up: "int i * rowSize + firstRowOffset ?rg \<le> rowOffset ?rg - rowSize"
    using row_in_range_iff[OF rs rg(2), of i] i by simp
  have lo: "0 \<le> int i * rowSize" using rs by simp
  have "int (rowAddress ranges rowSize p) = int (base ?rg) + (firstRowOffset ?rg + int i * rowSize)"
    unfolding pi using lo rg(1) by (simp add: rowAddress_def addressIn_def)
  then show ?thesis using r up lo by (simp add: pi)
qed

subsection \<open>Draining the result rows\<close>

text \<open>
  Where the source drains the rows as the specification has it.  Let every range have
  offsets that fit 32 bits, with the rows after the bitmap and \<open>rowOffset\<close> at least one
  row size, and let the cursor lie inside the range list.  Then \<open>k\<close> successive calls of
  \<^verbatim>\<open>makeResultRows\<close> with the persisted cursor all return; call \<open>j\<close> returns the
  addresses of the next batch of the rows that were not handed out before, at most
  \<open>maxRows\<close> of them (one when \<open>maxRows\<close> is less than one); together the calls return
  the first \<open>k\<close> batches of the remaining live rows, the cursor they leave has exactly
  the other rows remaining, and once the rows are used up the batches are empty.  The
  remaining rows are in range order and then in ascending row order, which makes them
  distinct, and they are exactly the rows at or after the cursor that the bitmaps do not
  mark deleted.  In the scenario of one range of ten rows of 16 bytes with rows 0, 3 and
  7 deleted and a cap of 5, the first call returns five ascending addresses, the second
  the other two, and the third none.
\<close>

lemma makeResultRows_drain:
  "(0 < rowSize \<and> (\<forall>rg \<in> set ranges. range_wf rowSize rg) \<and> cursor_wf ranges rowSize sr s \<longrightarrow>
     (\<exists>outs sr' s'.
        drain k ranges rowSize maxRows (int sr) (int s) = Some (outs, int sr', int s') \<and>
        length outs = k \<and>
        (\<forall>j<k. outs ! j = map (rowAddress ranges rowSize)
                   (take (nat (max 1 maxRows))
                      (drop (j * nat (max 1 maxRows)) (remainingRows ranges rowSize sr s))) \<and>
                length (outs ! j) \<le> nat (max 1 maxRows)) \<and>
        concat outs = map (rowAddress ranges rowSize)
                        (take (k * nat (max 1 maxRows)) (remainingRows ranges rowSize sr s)) \<and>
        cursor_wf ranges rowSize sr' s' \<and>
        remainingRows ranges rowSize sr' s'
          = drop (k * nat (max 1 maxRows)) (remainingRows ranges rowSize sr s)) \<and>
     sorted_wrt rowBefore (remainingRows ranges rowSize sr s) \<and>
     set (remainingRows ranges rowSize sr s) =
       {(r, i). r < length ranges \<and> i < rowsIn rowSize (ranges ! r) \<and> \<not> deleted (ranges ! r) i \<and>
                (sr < r \<or> (sr = r \<and> s \<le> i))}) \<and>
   drain 3 [scenario_range] 16 5 0 0
     = Some ([4120, 4136, 4168, 4184, 4200] # [4232, 4248] # [] # [], 1, 0)"
proof -
  let ?m = "nat (max 1 maxRows)"
  let ?pend = "remainingRows ranges rowSize sr s"
  let ?f = "\<lambda>j. map (rowAddress ranges rowSize) (take ?m (drop (j * ?m) ?pend))"
  have general: "\<exists>outs sr' s'.
        drain k ranges rowSize maxRows (int sr) (int s) = Some (outs, int sr', int s') \<and>
        length outs = k \<and>
        (\<forall>j<k. outs ! j = ?f j \<and> length (outs ! j) \<le> ?m) \<and>
        concat outs = map (rowAddress ranges rowSize) (take (k * ?m) ?pend) \<and>
        cursor_wf ranges rowSize sr' s' \<and>
        remainingRows ranges rowSize sr' s' = drop (k * ?m) ?pend"
    if rs: "0 < rowSize" and wf: "\<forall>rg \<in> set ranges. range_wf rowSize rg"
      and cw: "cursor_wf ranges rowSize sr s"
  proof -
    from drain_remaining[OF rs wf cw, of k maxRows] obtain sr' s' where
      d: "drain k ranges rowSize maxRows (int sr) (int s) = Some (map ?f [0..<k], int sr', int s')"
      and w: "cursor_wf ranges rowSize sr' s'"
      and r: "remainingRows ranges rowSize sr' s' = drop (k * ?m) ?pend"
      by blast
    have len: "length (map ?f [0..<k]) = k" by simp
    have each: "\<forall>j<k. map ?f [0..<k] ! j = ?f j \<and> length (map ?f [0..<k] ! j) \<le> ?m"
      by simp
    have "concat (map ?f [0..<k])
            = map (rowAddress ranges rowSize) (concat (map (\<lambda>j. take ?m (drop (j * ?m) ?pend)) [0..<k]))"
      by (simp add: map_concat comp_def)
    then have cc: "concat (map ?f [0..<k]) = map (rowAddress ranges rowSize) (take (k * ?m) ?pend)"
      by (simp only: concat_batches)
    from d len each cc w r show ?thesis by blast
  qed
  have order: "sorted_wrt rowBefore ?pend" by (rule sorted_remainingRows)
  have rows: "set ?pend =
       {(r, i). r < length ranges \<and> i < rowsIn rowSize (ranges ! r) \<and> \<not> deleted (ranges ! r) i \<and>
                (sr < r \<or> (sr = r \<and> s \<le> i))}"
    if "cursor_wf ranges rowSize sr s"
    using that by (rule set_remainingRows)
  from general order rows scenario_drain show ?thesis by blast
qed

text \<open>The three calls of the scenario, from the general statement.\<close>

lemma makeResultRows_drain_scenario:
  "(0::int) < 16 \<and> range_wf 16 scenario_range \<and> cursor_wf [scenario_range] 16 0 0 \<and>
   remainingRows [scenario_range] 16 0 0 = [(0, 1), (0, 2), (0, 4), (0, 5), (0, 6), (0, 8), (0, 9)] \<and>
   (\<exists>outs sr' s'.
      drain 3 [scenario_range] 16 5 0 0 = Some (outs, int sr', int s') \<and>
      concat outs = map (rowAddress [scenario_range] 16)
                      [(0, 1), (0, 2), (0, 4), (0, 5), (0, 6), (0, 8), (0, 9)] \<and>
      remainingRows [scenario_range] 16 sr' s' = [])"
proof -
  have rows: "rowsIn 16 scenario_range = 10"
    by (simp add: rowsIn_def scenario_range_def cdiv_def)
  have wf: "range_wf 16 scenario_range"
    by (simp add: range_wf_def scenario_range_def)
  have cw: "cursor_wf [scenario_range] 16 0 0"
    by (simp add: cursor_wf_def)
  have "[0..<10] = [0, 1, 2, 3, 4, 5, 6, 7, 8, 9::nat]" by code_simp
  then have pend: "remainingRows [scenario_range] 16 0 0
                     = [(0, 1), (0, 2), (0, 4), (0, 5), (0, 6), (0, 8), (0, 9)]"
    by (simp add: remainingRows_def liveRowsFrom_def rows) (simp add: scenario_range_def)
  have hyp: "(0::int) < 16 \<and> (\<forall>rg \<in> set [scenario_range]. range_wf 16 rg) \<and>
             cursor_wf [scenario_range] 16 0 0"
    using wf cw by simp
  from makeResultRows_drain[of 16 "[scenario_range]" 0 0 3 5, THEN conjunct1, THEN mp, OF hyp]
  obtain outs sr' s' where
    d: "drain 3 [scenario_range] 16 5 (int 0) (int 0) = Some (outs, int sr', int s')"
    and c: "concat outs = map (rowAddress [scenario_range] 16)
              (take (3 * nat (max 1 5)) (remainingRows [scenario_range] 16 0 0))"
    and r: "remainingRows [scenario_range] 16 sr' s'
              = drop (3 * nat (max 1 5)) (remainingRows [scenario_range] 16 0 0)"
    by auto
  from d c r have "drain 3 [scenario_range] 16 5 0 0 = Some (outs, int sr', int s') \<and>
      concat outs = map (rowAddress [scenario_range] 16)
                      [(0, 1), (0, 2), (0, 4), (0, 5), (0, 6), (0, 8), (0, 9)] \<and>
      remainingRows [scenario_range] 16 sr' s' = []"
    by (simp add: pend)
  moreover have "(0::int) < 16" by simp
  ultimately show ?thesis using wf cw pend by blast
qed

subsection \<open>The addresses handed out lie in their ranges\<close>

text \<open>
  C10.  The scan limit of a range is the unsigned 32 bit difference
  \<open>rowOffset - rowSize\<close>.  When every range has \<open>rowOffset \<ge> firstRowOffset + rowSize\<close>
  (with offsets that fit 32 bits, a positive row size and a cursor inside the range
  list), \<^verbatim>\<open>makeResultRows\<close> returns, and every address it writes belongs to a row of one
  of the ranges and lies between \<open>base + firstRowOffset\<close> and
  \<open>base + rowOffset - rowSize\<close> of that range.  Without the precondition the difference
  wraps around: for the range without rows, where \<open>rowOffset = 8 < 16 = rowSize\<close>, the
  limit is \<open>2^32 - 8\<close> and the addresses returned lie beyond
  \<open>base + rowOffset - rowSize\<close>.
\<close>

theorem makeResultRows_in_bounds:
  "(0 < rowSize \<and>
    (\<forall>rg \<in> set ranges. 0 \<le> firstRowOffset rg \<and> firstRowOffset rg + rowSize \<le> rowOffset rg \<and>
                        rowOffset rg < 2 ^ 32) \<and>
    cursor_wf ranges rowSize sr s \<longrightarrow>
      (\<exists>fill sr' s' idx.
         makeResultRows ranges (int (length ranges)) rowSize maxRows (int sr) (int s)
           = Some (fill, sr', s', map (rowAddress ranges rowSize) idx) \<and>
         (\<forall>p \<in> set idx.
            fst p < length ranges \<and>
            int (base (ranges ! fst p)) + firstRowOffset (ranges ! fst p)
              \<le> int (rowAddress ranges rowSize p) \<and>
            int (rowAddress ranges rowSize p)
              \<le> int (base (ranges ! fst p)) + rowOffset (ranges ! fst p) - rowSize))) \<and>
   uint (makeResultRows_limit rg rowSize) = (rowOffset rg - rowSize) mod 2 ^ 32 \<and>
   rowOffset unused_range < 16 \<and>
   uint (makeResultRows_limit unused_range 16) = 4294967288 \<and>
   makeResultRows [unused_range] 1 16 2 0 0 = Some (2, 0, 2, [4104, 4120]) \<and>
   int (base unused_range) + rowOffset unused_range - 16 < 4104"
proof -
  have general: "\<exists>fill sr' s' idx.
         makeResultRows ranges (int (length ranges)) rowSize maxRows (int sr) (int s)
           = Some (fill, sr', s', map (rowAddress ranges rowSize) idx) \<and>
         (\<forall>p \<in> set idx.
            fst p < length ranges \<and>
            int (base (ranges ! fst p)) + firstRowOffset (ranges ! fst p)
              \<le> int (rowAddress ranges rowSize p) \<and>
            int (rowAddress ranges rowSize p)
              \<le> int (base (ranges ! fst p)) + rowOffset (ranges ! fst p) - rowSize)"
    if rs: "0 < rowSize"
      and pre: "\<forall>rg \<in> set ranges. 0 \<le> firstRowOffset rg \<and>
                  firstRowOffset rg + rowSize \<le> rowOffset rg \<and> rowOffset rg < 2 ^ 32"
      and cw: "cursor_wf ranges rowSize sr s"
  proof -
    have wf: "\<forall>rg \<in> set ranges. range_wf rowSize rg"
      using pre rs by (auto simp: range_wf_def)
    have wf2: "\<forall>rg \<in> set ranges. 0 \<le> firstRowOffset rg \<and> firstRowOffset rg \<le> rowOffset rg"
      using pre rs by auto
    let ?idx = "take (nat (max 1 maxRows)) (remainingRows ranges rowSize sr s)"
    from makeResultRows_call[OF rs wf cw, of maxRows] obtain sr' s' where
      c: "makeResultRows ranges (int (length ranges)) rowSize maxRows (int sr) (int s)
           = Some (int (length ?idx), int sr', int s', map (rowAddress ranges rowSize) ?idx)"
      by blast
    have "\<forall>p \<in> set ?idx.
            fst p < length ranges \<and>
            int (base (ranges ! fst p)) + firstRowOffset (ranges ! fst p)
              \<le> int (rowAddress ranges rowSize p) \<and>
            int (rowAddress ranges rowSize p)
              \<le> int (base (ranges ! fst p)) + rowOffset (ranges ! fst p) - rowSize"
      using remainingRows_in_range[OF rs wf2] by (meson in_set_takeD)
    with c show ?thesis by blast
  qed
  have limit: "uint (makeResultRows_limit rg rowSize) = (rowOffset rg - rowSize) mod 2 ^ 32"
    unfolding makeResultRows_limit_def uint_word_of_int by simp
  have small: "rowOffset unused_range < 16" by (simp add: unused_range_def)
  have wrapped: "uint (makeResultRows_limit unused_range 16) = 4294967288"
    by (simp add: makeResultRows_limit_def unused_range_def)
  have out: "makeResultRows [unused_range] 1 16 2 0 0 = Some (2, 0, 2, [4104, 4120])"
    unfolding makeResultRows_def unused_range_def
    by (simp add: makeResultRows_ranges.simps makeResultRows_rows.simps isBitSet_def
        makeResultRows_limit_def)
  have beyond: "int (base unused_range) + rowOffset unused_range - 16 < 4104"
    by (simp add: unused_range_def)
  from general limit small wrapped out beyond show ?thesis by blast
qed

theorem makeResultRows_in_bounds_witness:
  "(0::int) < 16 \<and> 0 \<le> firstRowOffset scenario_range \<and>
   firstRowOffset scenario_range + 16 \<le> rowOffset scenario_range \<and>
   rowOffset scenario_range < 2 ^ 32 \<and> cursor_wf [scenario_range] 16 0 0 \<and>
   (\<exists>fill sr' s' idx.
       makeResultRows [scenario_range] 1 16 5 0 0
         = Some (fill, sr', s', map (rowAddress [scenario_range] 16) idx) \<and>
       (\<forall>p \<in> set idx. 4104 \<le> int (rowAddress [scenario_range] 16 p) \<and>
                       int (rowAddress [scenario_range] 16 p) \<le> 4248))"
proof -
  have pre: "0 \<le> firstRowOffset scenario_range"
    "firstRowOffset scenario_range + 16 \<le> rowOffset scenario_range"
    "rowOffset scenario_range < 2 ^ 32"
    by (simp_all add: scenario_range_def)
  have cw: "cursor_wf [scenario_range] 16 0 0"
    by (simp add: cursor_wf_def)
  have hyp: "(0::int) < 16 \<and>
      (\<forall>rg \<in> set [scenario_range]. 0 \<le> firstRowOffset rg \<and>
          firstRowOffset rg + 16 \<le> rowOffset rg \<and> rowOffset rg < 2 ^ 32) \<and>
      cursor_wf [scenario_range] 16 0 0"
    using pre cw by simp
  from makeResultRows_in_bounds[of 16 "[scenario_range]" 0 0 5 scenario_range,
      THEN conjunct1, THEN mp, OF hyp]
  obtain fill sr' s' idx where
    c: "makeResultRows [scenario_range] (int (length [scenario_range])) 16 5 (int 0) (int 0)
          = Some (fill, sr', s', map (rowAddress [scenario_range] 16) idx)"
    and b: "\<forall>p \<in> set idx. fst p < length [scenario_range] \<and>
              int (base ([scenario_range] ! fst p)) + firstRowOffset ([scenario_range] ! fst p)
                \<le> int (rowAddress [scenario_range] 16 p) \<and>
              int (rowAddress [scenario_range] 16 p)
                \<le> int (base ([scenario_range] ! fst p)) + rowOffset ([scenario_range] ! fst p) - 16"
    by auto
  have "\<forall>p \<in> set idx. 4104 \<le> int (rowAddress [scenario_range] 16 p) \<and>
                       int (rowAddress [scenario_range] 16 p) \<le> 4248"
  proof
    fix p assume "p \<in> set idx"
    with b have "fst p = 0 \<and>
        int (base ([scenario_range] ! fst p)) + firstRowOffset ([scenario_range] ! fst p)
                \<le> int (rowAddress [scenario_range] 16 p) \<and>
              int (rowAddress [scenario_range] 16 p)
                \<le> int (base ([scenario_range] ! fst p)) + rowOffset ([scenario_range] ! fst p) - 16"
      by auto
    then show "4104 \<le> int (rowAddress [scenario_range] 16 p) \<and>
               int (rowAddress [scenario_range] 16 p) \<le> 4248"
      by (elim conjE) (simp add: scenario_range_def)
  qed
  with c have "\<exists>fill sr' s' idx.
       makeResultRows [scenario_range] 1 16 5 0 0
         = Some (fill, sr', s', map (rowAddress [scenario_range] 16) idx) \<and>
       (\<forall>p \<in> set idx. 4104 \<le> int (rowAddress [scenario_range] 16 p) \<and>
                       int (rowAddress [scenario_range] 16 p) \<le> 4248)"
    by auto
  with pre cw show ?thesis by simp
qed

subsection \<open>Counting the live rows\<close>






subsection \<open>Restocking, clamping and the loop over the partitions\<close>

lemma range_availableFixed_nonneg: "0 \<le> range_availableFixed rg"
  by (simp add: range_availableFixed_def)

lemma availableFixed_nonneg: "0 \<le> availableFixed a"
  by (simp add: availableFixed_def range_availableFixed_nonneg)

lemma range_trimRows_available:
  "0 \<le> t \<Longrightarrow> range_availableFixed (range_trimRows rg t) = min (range_availableFixed rg) t"
  by (simp add: range_trimRows_def range_availableFixed_def)

lemma trimRows_available:
  assumes "0 \<le> t"
  shows "availableFixed (trimRows a t) = min (availableFixed a) t"
proof -
  let ?a0 = "range_availableFixed (range_trimRows (ranges0 a) t)"
  have a0: "?a0 = min (range_availableFixed (ranges0 a)) t"
    by (rule range_trimRows_available[OF assms])
  then have rest: "0 \<le> t - ?a0" by simp
  have a1: "range_availableFixed (range_trimRows (ranges1 a) (t - ?a0))
              = min (range_availableFixed (ranges1 a)) (t - ?a0)"
    by (rule range_trimRows_available[OF rest])
  have "availableFixed (trimRows a t)
          = ?a0 + range_availableFixed (range_trimRows (ranges1 a) (t - ?a0))"
    by (simp add: availableFixed_def trimRows_def Let_def)
  also have "\<dots> = ?a0 + min (range_availableFixed (ranges1 a)) (t - ?a0)"
    by (simp only: a1)
  also have "\<dots> = min (range_availableFixed (ranges0 a)) t
                   + min (range_availableFixed (ranges1 a))
                       (t - min (range_availableFixed (ranges0 a)) t)"
    by (simp only: a0)
  also have "\<dots> = min (availableFixed a) t"
    using range_availableFixed_nonneg[of "ranges1 a"]
    by (simp add: availableFixed_def min_def)
  finally show ?thesis .
qed

lemma setSizesToSafe_allocator_available:
  assumes "0 < rowSize" "0 \<le> allowed"
  shows "availableFixed (setSizesToSafe_allocator rowSize allowed a) =
           (if allowed < cdiv (availableFixed a) rowSize then allowed * rowSize
            else availableFixed a)"
proof (cases "allowed < cdiv (availableFixed a) rowSize")
  case True
  then have "allowed < availableFixed a div rowSize"
    using assms by (simp add: cdiv_nonneg availableFixed_nonneg)
  then have "allowed + 1 \<le> availableFixed a div rowSize" by simp
  then have "(allowed + 1) * rowSize \<le> availableFixed a"
    using int_le_div_iff[OF assms(1)] by simp
  then have "allowed * rowSize \<le> availableFixed a"
    using assms by (simp add: algebra_simps)
  moreover have "0 \<le> allowed * rowSize" using assms by simp
  ultimately show ?thesis
    using True by (simp add: setSizesToSafe_allocator_def Let_def trimRows_available)
next
  case False
  then show ?thesis by (simp add: setSizesToSafe_allocator_def Let_def)
qed

lemma setSizesToSafe_loop_eq:
  "0 \<le> i \<Longrightarrow> setSizesToSafe_loop P rowSize allowed i allocs =
     (\<lambda>j. if nat i \<le> j \<and> int j < P then setSizesToSafe_allocator rowSize allowed (allocs j)
          else allocs j)"
proof (induction P rowSize allowed i allocs rule: setSizesToSafe_loop.induct)
  case (1 P rowSize allowed i allocs)
  show ?case
  proof (cases "i < P")
    case True
    let ?allocs' = "allocs(nat i := setSizesToSafe_allocator rowSize allowed (allocs (nat i)))"
    have "setSizesToSafe_loop P rowSize allowed i allocs
            = setSizesToSafe_loop P rowSize allowed (i + 1) ?allocs'"
      using True by (subst setSizesToSafe_loop.simps) simp
    also have "\<dots> = (\<lambda>j. if nat (i + 1) \<le> j \<and> int j < P
                          then setSizesToSafe_allocator rowSize allowed (?allocs' j)
                          else ?allocs' j)"
      by (rule "1.IH"[OF True]) (use "1.prems" in simp)
    also have "\<dots> = (\<lambda>j. if nat i \<le> j \<and> int j < P
                          then setSizesToSafe_allocator rowSize allowed (allocs j)
                          else allocs j)"
      using True "1.prems" by (auto simp: fun_eq_iff nat_add_distrib)
    finally show ?thesis .
  next
    case False
    then have none: "\<And>j. (nat i \<le> j \<and> int j < P) = False" using "1.prems" by auto
    show ?thesis using False by (subst setSizesToSafe_loop.simps) (simp add: none)
  qed
qed

lemma same_head_refl: "same_head st st"
  by (simp add: same_head_def)

lemma same_head_trans: "same_head a b \<Longrightarrow> same_head b c \<Longrightarrow> same_head a c"
  by (auto simp: same_head_def)

lemma raiseRowLimits_rowSize: "hpa_rowSize (snd (raiseRowLimits a sz)) = hpa_rowSize a"
  by (simp add: raiseRowLimits_def Let_def)

lemma restock_retire_state:
  "same_head st (fst (restock_retire st a)) \<and>
   allocators (fst (restock_retire st a)) = allocators st \<and>
   hpa_rowSize (snd (restock_retire st a)) = hpa_rowSize a"
  by (simp add: restock_retire_def same_head_def)

lemma restock_install_state:
  assumes "restock_install st sz a = Inr (st', a')"
  shows "same_head st st' \<and> allocators st' = allocators st \<and> hpa_rowSize a' = hpa_rowSize a"
proof -
  from assms obtain buffer arena1 where
    al: "arena_allocate (arena st) sz = Some (buffer, arena1)"
    by (cases "arena_allocate (arena st) sz") (auto simp: restock_install_def)
  from assms have
    st': "st' = st\<lparr>arena := arena1, buffers := buffers st @ [buffer]\<rparr>"
    and a': "hpa_rowSize a' = hpa_rowSize a"
    unfolding restock_install_def al by (auto simp: Let_def split: if_splits)
  show ?thesis unfolding st' using a' by (simp add: same_head_def)
qed

lemma restockAllocator_state:
  assumes "restockAllocator st sz a = Inr (st', a')"
  shows "same_head st st' \<and> allocators st' = allocators st \<and> hpa_rowSize a' = hpa_rowSize a"
proof (cases "sz - fst (raiseRowLimits a sz) \<le> 0")
  case True
  with assms have "st' = st" "a' = snd (raiseRowLimits a sz)"
    by (simp_all add: restockAllocator_def Let_def)
  then show ?thesis by (simp add: same_head_refl raiseRowLimits_rowSize)
next
  case False
  let ?r = "restock_retire st (snd (raiseRowLimits a sz))"
  from assms False have "restock_install (fst ?r) sz (snd ?r) = Inr (st', a')"
    by (simp add: restockAllocator_def Let_def)
  from restock_install_state[OF this] restock_retire_state[of st "snd (raiseRowLimits a sz)"]
  show ?thesis by (auto simp: raiseRowLimits_rowSize intro: same_head_trans)
qed

lemma clearOverflows_rowSize: "hpa_rowSize (clearOverflows a) = hpa_rowSize a"
  by (simp add: clearOverflows_def)

lemma partition_done_rowSize: "partition_done inc a a' \<Longrightarrow> hpa_rowSize a' = hpa_rowSize a"
  by (auto simp: partition_done_def clearOverflows_rowSize split: if_splits
      dest!: restockAllocator_state)

lemma resupply_partition_state:
  assumes "resupply_partition inc i st = Inr st'"
  shows "same_head st st' \<and>
         (\<exists>a'. allocators st' = (allocators st)(i := a') \<and> partition_done inc (allocators st i) a')"
proof (cases "availableFixed (clearOverflows (allocators st i)) < inc")
  case True
  with assms obtain st1 a1 where
    r: "restockAllocator st (narrow32 inc) (clearOverflows (allocators st i)) = Inr (st1, a1)"
    and st': "st' = st1\<lparr>allocators := (allocators st1)(i := a1)\<rparr>"
    by (auto simp: resupply_partition_def Let_def split: sum.splits prod.splits)
  from restockAllocator_state[OF r] have h: "same_head st st1" and al: "allocators st1 = allocators st"
    by simp_all
  have "partition_done inc (allocators st i) a1"
    using True r by (auto simp: partition_done_def)
  moreover have "same_head st st'" using h by (simp add: st' same_head_def)
  ultimately show ?thesis using al by (auto simp: st')
next
  case False
  with assms have st': "st' = st\<lparr>allocators := (allocators st)(i := clearOverflows (allocators st i))\<rparr>"
    by (auto simp: resupply_partition_def Let_def)
  have "partition_done inc (allocators st i) (clearOverflows (allocators st i))"
    using False by (simp add: partition_done_def)
  then show ?thesis by (auto simp: st' same_head_def)
qed

lemma resupply_partitions_state:
  "resupply_partitions inc P i st = Inr st' \<Longrightarrow> 0 \<le> i \<Longrightarrow>
     same_head st st' \<and>
     (\<forall>j. if nat i \<le> j \<and> int j < P then partition_done inc (allocators st j) (allocators st' j)
          else allocators st' j = allocators st j)"
proof (induction inc P i st rule: resupply_partitions.induct)
  case (1 inc P i st)
  show ?case
  proof (cases "i < P")
    case True
    from "1.prems"(1) True obtain st1 where
      p: "resupply_partition inc (nat i) st = Inr st1"
      and rest: "resupply_partitions inc P (i + 1) st1 = Inr st'"
      by (subst (asm) resupply_partitions.simps) (auto split: sum.splits)
    from resupply_partition_state[OF p] obtain a' where
      h1: "same_head st st1" and al1: "allocators st1 = (allocators st)(nat i := a')"
      and d1: "partition_done inc (allocators st (nat i)) a'"
      by blast
    from "1.IH"[OF True p rest] "1.prems"(2) have
      h2: "same_head st1 st'"
      and rec: "\<forall>j. if nat (i + 1) \<le> j \<and> int j < P
                    then partition_done inc (allocators st1 j) (allocators st' j)
                    else allocators st' j = allocators st1 j"
      by simp_all
    have "\<forall>j. if nat i \<le> j \<and> int j < P then partition_done inc (allocators st j) (allocators st' j)
          else allocators st' j = allocators st j"
    proof
      fix j
      consider "j = nat i" | "nat (i + 1) \<le> j" "int j < P" | "j < nat i" | "\<not> int j < P" "j \<noteq> nat i"
        using "1.prems"(2)
        by (cases "j = nat i"; cases "int j < P"; cases "j < nat i") (auto simp: nat_add_distrib)
      then show "if nat i \<le> j \<and> int j < P then partition_done inc (allocators st j) (allocators st' j)
          else allocators st' j = allocators st j"
      proof cases
        case 1
        then have "\<not> (nat (i + 1) \<le> j \<and> int j < P)" using "1.prems"(2) by (simp add: nat_add_distrib)
        with rec have "allocators st' j = allocators st1 j" by meson
        then show ?thesis using 1 al1 d1 True "1.prems"(2) by simp
      next
        case 2
        with rec have "partition_done inc (allocators st1 j) (allocators st' j)" by meson
        moreover have "j \<noteq> nat i" using 2 "1.prems"(2) by (simp add: nat_add_distrib)
        ultimately show ?thesis using 2 al1 "1.prems"(2) by (simp add: nat_add_distrib)
      next
        case 3
        then have "\<not> (nat (i + 1) \<le> j \<and> int j < P)" by (simp add: nat_add_distrib)
        with rec have "allocators st' j = allocators st1 j" by meson
        then show ?thesis using 3 al1 by simp
      next
        case 4
        with rec have "allocators st' j = allocators st1 j" by meson
        then show ?thesis using 4 al1 by simp
      qed
    qed
    with same_head_trans[OF h1 h2] show ?thesis by simp
  next
    case False
    with "1.prems"(1) have st': "st' = st" by (subst (asm) resupply_partitions.simps) simp
    have none: "\<And>j. (nat i \<le> j \<and> int j < P) = False" using False "1.prems"(2) by auto
    show ?thesis by (simp add: st' none same_head_refl)
  qed
qed

lemma setSizesToSafe_head:
  "hashTable (setSizesToSafe st) = hashTable st \<and> buffers (setSizesToSafe st) = buffers st \<and>
   alignedHead (setSizesToSafe st) = alignedHead st \<and>
   alignedHeadSize (setSizesToSafe st) = alignedHeadSize st"
  by (simp add: setSizesToSafe_def Let_def)

lemma setSizesToSafe_allocators:
  "allocators (setSizesToSafe st) =
     (\<lambda>j. if int j < partitionMask (hashTable st) + 1
          then setSizesToSafe_allocator (hpa_rowSize (allocators st 0))
                 (cdiv (maxEntries (hashTable st) - numDistinct (hashTable st))
                       (partitionMask (hashTable st) + 1))
                 (allocators st j)
          else allocators st j)"
  by (simp add: setSizesToSafe_def Let_def setSizesToSafe_loop_eq)

lemma restock_retire_arena: "arena (fst (restock_retire st a)) = arena st"
  by (simp add: restock_retire_def)

lemma arena_allocate_grows:
  "arena_allocate ar n = Some (buffer, ar') \<Longrightarrow>
     0 \<le> n \<and> arena_next ar' = arena_next ar + nat n \<and> arena_free ar' = arena_free ar - n"
  by (auto simp: arena_allocate_def split: if_splits)

lemma restockAllocator_arena:
  assumes "restockAllocator st sz a = Inr (st', a')"
  shows "arena_next (arena st) \<le> arena_next (arena st') \<and>
         arena_free (arena st') \<le> arena_free (arena st)"
proof (cases "sz - fst (raiseRowLimits a sz) \<le> 0")
  case True
  with assms have "st' = st" by (simp add: restockAllocator_def Let_def)
  then show ?thesis by simp
next
  case False
  let ?r = "restock_retire st (snd (raiseRowLimits a sz))"
  from assms False have inst: "restock_install (fst ?r) sz (snd ?r) = Inr (st', a')"
    by (simp add: restockAllocator_def Let_def)
  show ?thesis
  proof (cases "arena_allocate (arena st) sz")
    case None
    then show ?thesis using inst by (simp add: restock_install_def restock_retire_arena)
  next
    case (Some r)
    obtain buffer arena1 where r: "r = (buffer, arena1)" by (cases r)
    from inst have "arena st' = arena1"
      unfolding restock_install_def restock_retire_arena Some r
      by (auto simp: Let_def split: if_splits)
    with arena_allocate_grows[OF Some[unfolded r]] show ?thesis by simp
  qed
qed

lemma resupply_partition_arena:
  assumes "resupply_partition inc i st = Inr st'"
  shows "arena_next (arena st) \<le> arena_next (arena st') \<and>
         arena_free (arena st') \<le> arena_free (arena st)"
proof (cases "availableFixed (clearOverflows (allocators st i)) < inc")
  case True
  with assms obtain st1 a1 where
    r: "restockAllocator st (narrow32 inc) (clearOverflows (allocators st i)) = Inr (st1, a1)"
    and st': "st' = st1\<lparr>allocators := (allocators st1)(i := a1)\<rparr>"
    by (auto simp: resupply_partition_def Let_def split: sum.splits prod.splits)
  from restockAllocator_arena[OF r] show ?thesis by (simp add: st')
next
  case False
  with assms have "st' = st\<lparr>allocators := (allocators st)(i := clearOverflows (allocators st i))\<rparr>"
    by (auto simp: resupply_partition_def Let_def)
  then show ?thesis by simp
qed

lemma resupply_partitions_arena:
  "resupply_partitions inc P i st = Inr st' \<Longrightarrow>
     arena_next (arena st) \<le> arena_next (arena st') \<and>
     arena_free (arena st') \<le> arena_free (arena st)"
proof (induction inc P i st rule: resupply_partitions.induct)
  case (1 inc P i st)
  show ?case
  proof (cases "i < P")
    case True
    from "1.prems" True obtain st1 where
      p: "resupply_partition inc (nat i) st = Inr st1"
      and rest: "resupply_partitions inc P (i + 1) st1 = Inr st'"
      by (subst (asm) resupply_partitions.simps) (auto split: sum.splits)
    from resupply_partition_arena[OF p] "1.IH"[OF True p rest] show ?thesis by simp
  next
    case False
    with "1.prems" have "st' = st" by (subst (asm) resupply_partitions.simps) simp
    then show ?thesis by simp
  qed
qed

lemma setSizesToSafe_arena: "arena (setSizesToSafe st) = arena st"
  by (simp add: setSizesToSafe_def Let_def)


lemma resupplyHashTable_Inr:
  assumes "resupplyHashTable K stream agg exe state dev = Inr (state', dev')"
  obtains
    (rehash) state1 state2 dev2 oldBuckets numOldBuckets program where
      "debugActiveBlockCounter state = 0"
      "resupply_partitions (resupply_increment K stream agg (hashTable state))
         (partitionMask (hashTable state) + 1) 0 state = Inr state1"
      "numSlots K (hashTable state1) < resupply_newSize K stream (hashTable state)"
      "resupply_rehash K (resupply_newSize K stream (hashTable state)) state1
         (resupply_dev1 state dev) = Inr (state2, dev2, oldBuckets, numOldBuckets)"
      "exe = Some program"
      "state' = setSizesToSafe state2"
      "dev' = dev2\<lparr>ops := ops dev2 @
                [PrefetchToDevice (alignedHead (setSizesToSafe state2))
                   (alignedHeadSize (setSizesToSafe state2)),
                 SetupAggregation
                   \<lparr>ctl_head = alignedHead (setSizesToSafe state2),
                    ctl_oldBuckets = buf_addr oldBuckets,
                    ctl_numOldBuckets = numOldBuckets\<rparr>
                   (entryPointIdxBySerial program (agg_serial agg)) (kernel program),
                 Wait, ReleaseStream]\<rparr>"
  | (keep) state1 where
      "debugActiveBlockCounter state = 0"
      "resupply_partitions (resupply_increment K stream agg (hashTable state))
         (partitionMask (hashTable state) + 1) 0 state = Inr state1"
      "\<not> numSlots K (hashTable state1) < resupply_newSize K stream (hashTable state)"
      "state' = setSizesToSafe state1"
      "dev' = (resupply_dev1 state dev)\<lparr>ops := ops (resupply_dev1 state dev) @
                [PrefetchToDevice (alignedHead (setSizesToSafe state1))
                   (alignedHeadSize (setSizesToSafe state1)),
                 Wait, ReleaseStream]\<rparr>"
proof -
  let ?inc = "resupply_increment K stream agg (hashTable state)"
  let ?P = "partitionMask (hashTable state) + 1"
  let ?new = "resupply_newSize K stream (hashTable state)"
  have zero: "debugActiveBlockCounter state = 0"
    using assms by (simp add: resupplyHashTable_def Let_def split: if_splits)
  obtain state1 where loop: "resupply_partitions ?inc ?P 0 state = Inr state1"
    using assms zero by (cases "resupply_partitions ?inc ?P 0 state")
      (simp_all add: resupplyHashTable_def Let_def)
  have body: "resupplyHashTable K stream agg exe state dev =
     (case (if ?new > numSlots K (hashTable state1)
            then (case resupply_rehash K ?new state1 (resupply_dev1 state dev) of
                    Inl e \<Rightarrow> Inl e
                  | Inr (state2, dev2, oldBuckets, numOldBuckets) \<Rightarrow>
                      Inr (state2, dev2, Some (oldBuckets, numOldBuckets)))
            else Inr (state1, resupply_dev1 state dev, None)) of
        Inl e \<Rightarrow> Inl e
      | Inr (state2, dev2, rehash) \<Rightarrow>
          (let state3 = setSizesToSafe state2;
               dev3 = dev2\<lparr>ops := ops dev2 @
                        [PrefetchToDevice (alignedHead state3) (alignedHeadSize state3)]\<rparr>
           in case rehash of
                None \<Rightarrow> Inr (state3, dev3\<lparr>ops := ops dev3 @ [Wait, ReleaseStream]\<rparr>)
              | Some (oldBuckets, numOldBuckets) \<Rightarrow>
                  (case exe of
                     None \<Rightarrow> Inl ExecutableIsNull
                   | Some program \<Rightarrow>
                       (let control = \<lparr>ctl_head = alignedHead state3,
                                       ctl_oldBuckets = buf_addr oldBuckets,
                                       ctl_numOldBuckets = numOldBuckets\<rparr>;
                            entryPointIdx = entryPointIdxBySerial program (agg_serial agg)
                        in Inr (state3,
                                dev3\<lparr>ops := ops dev3 @
                                  [SetupAggregation control entryPointIdx (kernel program),
                                   Wait, ReleaseStream]\<rparr>)))))"
    unfolding resupplyHashTable_def resupply_dev1_def Let_def using zero loop by simp
  show thesis
  proof (cases "?new > numSlots K (hashTable state1)")
    case True
    from assms[unfolded body] True obtain state2 dev2 oldBuckets numOldBuckets where
      rh: "resupply_rehash K ?new state1 (resupply_dev1 state dev)
             = Inr (state2, dev2, oldBuckets, numOldBuckets)"
      by (cases "resupply_rehash K ?new state1 (resupply_dev1 state dev)") auto
    from assms[unfolded body] True rh obtain program where exe: "exe = Some program"
      by (cases exe) (auto simp: Let_def)
    from assms[unfolded body] True rh exe have
      "state' = setSizesToSafe state2"
      "dev' = dev2\<lparr>ops := ops dev2 @
                [PrefetchToDevice (alignedHead (setSizesToSafe state2))
                   (alignedHeadSize (setSizesToSafe state2)),
                 SetupAggregation
                   \<lparr>ctl_head = alignedHead (setSizesToSafe state2),
                    ctl_oldBuckets = buf_addr oldBuckets,
                    ctl_numOldBuckets = numOldBuckets\<rparr>
                   (entryPointIdxBySerial program (agg_serial agg)) (kernel program),
                 Wait, ReleaseStream]\<rparr>"
      by (auto simp: Let_def)
    with zero loop True rh exe show ?thesis by (rule rehash)
  next
    case False
    from assms[unfolded body] False have
      "state' = setSizesToSafe state1"
      "dev' = (resupply_dev1 state dev)\<lparr>ops := ops (resupply_dev1 state dev) @
                [PrefetchToDevice (alignedHead (setSizesToSafe state1))
                   (alignedHeadSize (setSizesToSafe state1)),
                 Wait, ReleaseStream]\<rparr>"
      by (auto simp: Let_def)
    with zero loop False show ?thesis by (rule keep)
  qed
qed

lemma scenario_numFailed: "resupply_numFailed scenario_constants scenario_stream = 100"
  by (simp add: resupply_numFailed_def resupply_numBlocks_def roundUp_def cdiv_def
      scenario_constants_def scenario_stream_def
      countErrors_def countErrors_block.simps countErrors_row.simps)

lemma scenario_newSize:
  "resupply_newSize scenario_constants scenario_stream (hashTable scenario_state) = 256"
  by (simp add: resupply_newSize_def scenario_numFailed nextPowerOfTwo_def
      nextPowerOfTwo_from.simps scenario_state_def)

lemma scenario_increment:
  "resupply_increment scenario_constants scenario_stream scenario_aggregation
     (hashTable scenario_state) = 1648"
proof -
  have "partitionMask (hashTable scenario_state) = 1" "numDistinct (hashTable scenario_state) = 50"
    by (simp_all add: scenario_state_def)
  then show ?thesis
    by (simp add: resupply_increment_def scenario_newSize scenario_aggregation_def cdiv_def)
qed

lemma scenario_partitions:
  "resupply_partitions 1648 2 0 scenario_state = Inr scenario_state"
proof -
  have a: "clearOverflows (scenario_partition b n) = scenario_partition b n"
    if "0 \<le> n" "n \<le> 254" for b n
    using that
    by (simp add: clearOverflows_def scenario_partition_def range_clearOverflows_def
        AllocationRange_default_def)
  have av: "availableFixed (scenario_partition b n) = 4064 - n * 16" if "0 \<le> n" "n \<le> 254" for b n
    using that
    by (simp add: availableFixed_def scenario_partition_def range_availableFixed_def
        AllocationRange_default_def)
  have al: "allocators scenario_state =
      (\<lambda>i. if i = 0 then scenario_partition 8192 30 else scenario_partition 16384 20)"
    by (simp add: scenario_state_def)
  have upd: "scenario_state\<lparr>allocators := (allocators scenario_state)(i := allocators scenario_state i)\<rparr>
               = scenario_state" for i
    by simp
  have p0: "resupply_partition 1648 0 scenario_state = Inr scenario_state"
    unfolding resupply_partition_def Let_def
    using upd[of 0] by (simp add: al a av)
  have p1: "resupply_partition 1648 (Suc 0) scenario_state = Inr scenario_state"
    unfolding resupply_partition_def Let_def
    using upd[of "Suc 0"] by (simp add: al a av)
  show ?thesis
    by (simp add: resupply_partitions.simps p0 p1)
qed

lemma arena_allocate_size:
  "arena_allocate ar n = Some (buffer, ar') \<Longrightarrow> buf_size buffer = n \<and> buf_addr buffer = arena_next ar"
  by (auto simp: arena_allocate_def split: if_splits)

lemma resupply_rehash_Inr:
  assumes "resupply_rehash K newSize st dev = Inr (st2, dev2, oldBuckets, numOldBuckets)"
  shows "1 < length (buffers st) \<and> oldBuckets = buffers st ! 1 \<and>
         numOldBuckets = sizeMask (hashTable st) + 1 \<and>
         (\<exists>buffer. buf_size buffer = cdiv newSize (kNumSlots K) * sizeofGpuBucketMembers K \<and>
            buffers st2 = (buffers st)[1 := buffer] \<and>
            hashTable st2 = (hashTable st)\<lparr>sizeMask := cdiv newSize (kNumSlots K) - 1,
                                             buckets := buf_addr buffer,
                                             maxEntries := cdiv newSize 6 * 5\<rparr> \<and>
            allocators st2 = allocators st \<and> alignedHead st2 = alignedHead st \<and>
            alignedHeadSize st2 = alignedHeadSize st \<and>
            dev2 = dev\<lparr>ops := ops dev @ [Memset (buf_addr buffer) 0 (buf_size buffer)]\<rparr> \<and>
            arena_allocate (arena st) (cdiv newSize (kNumSlots K) * sizeofGpuBucketMembers K)
              = Some (buffer, arena st2))"
proof -
  have len: "1 < length (buffers st)"
    using assms by (auto simp: resupply_rehash_def split: if_splits)
  let ?n = "cdiv newSize (kNumSlots K) * sizeofGpuBucketMembers K"
  obtain buffer arena1 where al: "arena_allocate (arena st) ?n = Some (buffer, arena1)"
    using assms len by (cases "arena_allocate (arena st) ?n") (auto simp: resupply_rehash_def Let_def)
  from assms len al have
    "oldBuckets = buffers st ! 1" "numOldBuckets = sizeMask (hashTable st) + 1"
    "st2 = st\<lparr>arena := arena1, buffers := (buffers st)[1 := buffer],
               hashTable := (hashTable st)\<lparr>sizeMask := cdiv newSize (kNumSlots K) - 1,
                                             buckets := buf_addr buffer,
                                             maxEntries := cdiv newSize 6 * 5\<rparr>\<rparr>"
    "dev2 = dev\<lparr>ops := ops dev @ [Memset (buf_addr buffer) 0 (buf_size buffer)]\<rparr>"
    by (auto simp: resupply_rehash_def Let_def)
  with len arena_allocate_size[OF al] al show ?thesis by auto
qed

lemma resupply_newSize_pos: "0 < resupply_newSize K stream t"
proof -
  obtain k where "resupply_newSize K stream t = 2 ^ k"
    using nextPowerOfTwo_least[of "resupply_numFailed K stream + numDistinct t * 2"]
    by (auto simp: resupply_newSize_def)
  then show ?thesis by simp
qed

lemma scenario_state_fields:
  "debugActiveBlockCounter scenario_state = 0"
  "alignedHead scenario_state = 1024"
  "alignedHeadSize scenario_state = 512"
  "hashTable scenario_state =
     \<lparr>sizeMask = 15, partitionMask = 1, numDistinct = 50, maxEntries = 50, buckets = 2048\<rparr>"
  "buffers scenario_state = [\<lparr>buf_addr = 1024, buf_size = 512\<rparr>, \<lparr>buf_addr = 2048, buf_size = 256\<rparr>]"
  "arena scenario_state = \<lparr>arena_next = 65536, arena_free = 65536\<rparr>"
  "allocators scenario_state =
      (\<lambda>i. if i = 0 then scenario_partition 8192 30 else scenario_partition 16384 20)"
  by (simp_all add: scenario_state_def)

lemma scenario_rehash:
  "resupply_rehash scenario_constants 256 scenario_state (resupply_dev1 scenario_state scenario_device)
     = Inr (scenario_rehashed,
            scenario_device\<lparr>ops := [StreamFromReserve, PrefetchToHost 1024 512, Wait,
                                    Memset 65536 0 1024]\<rparr>,
            \<lparr>buf_addr = 2048, buf_size = 256\<rparr>, 16)"
  by (simp add: resupply_rehash_def scenario_state_fields arena_allocate_def scenario_constants_def
      cdiv_def Let_def scenario_rehashed_def resupply_dev1_def scenario_device_def)

lemma scenario_resupply:
  "resupplyHashTable scenario_constants scenario_stream scenario_aggregation
     (Some scenario_program) scenario_state scenario_device
   = Inr (setSizesToSafe scenario_rehashed,
          scenario_device\<lparr>ops :=
            [StreamFromReserve, PrefetchToHost 1024 512, Wait, Memset 65536 0 1024,
             PrefetchToDevice 1024 512,
             SetupAggregation \<lparr>ctl_head = 1024, ctl_oldBuckets = 2048, ctl_numOldBuckets = 16\<rparr> 6 77,
             Wait, ReleaseStream]\<rparr>)"
proof -
  have slots: "numSlots scenario_constants (hashTable scenario_state) = 64"
    by (simp add: numSlots_def scenario_state_fields scenario_constants_def)
  have head: "alignedHead (setSizesToSafe scenario_rehashed) = 1024"
    "alignedHeadSize (setSizesToSafe scenario_rehashed) = 512"
    by (simp_all add: setSizesToSafe_head scenario_rehashed_def scenario_state_fields)
  have pm: "partitionMask (hashTable scenario_state) + 1 = 2"
    by (simp add: scenario_state_fields)
  show ?thesis
    unfolding resupplyHashTable_def Let_def scenario_newSize scenario_increment pm
      scenario_partitions resupply_dev1_def[symmetric]
    by (simp add: scenario_state_fields(1) slots scenario_rehash head scenario_program_def
        scenario_aggregation_def)
qed

lemma scenario_final_available:
  "availableFixed (allocators (setSizesToSafe scenario_rehashed) 0) = 1280"
  "availableFixed (allocators (setSizesToSafe scenario_rehashed) (Suc 0)) = 1280"
proof -
  have ht: "hashTable scenario_rehashed =
      \<lparr>sizeMask = 63, partitionMask = 1, numDistinct = 50, maxEntries = 210, buckets = 65536\<rparr>"
    by (simp add: scenario_rehashed_def)
  have al: "allocators scenario_rehashed =
      (\<lambda>i. if i = 0 then scenario_partition 8192 30 else scenario_partition 16384 20)"
    by (simp add: scenario_rehashed_def scenario_state_fields)
  have trim: "availableFixed (setSizesToSafe_allocator 16 80 (scenario_partition b n)) = 1280"
    if "0 \<le> n" "n \<le> 100" for b n
    using that
    by (simp add: setSizesToSafe_allocator_def Let_def availableFixed_def scenario_partition_def
        range_availableFixed_def AllocationRange_default_def trimRows_def range_trimRows_def cdiv_def)
  show "availableFixed (allocators (setSizesToSafe scenario_rehashed) 0) = 1280"
    "availableFixed (allocators (setSizesToSafe scenario_rehashed) (Suc 0)) = 1280"
    unfolding setSizesToSafe_allocators ht al
    by (simp_all add: cdiv_def trim scenario_partition_def[of 8192 30, THEN arg_cong[of _ _ hpa_rowSize]])
qed

lemma resupply_partitions_allocators:
  assumes "resupply_partitions inc P 0 st = Inr st1"
  shows "hashTable st1 = hashTable st \<and>
         hpa_rowSize (allocators st1 0) = hpa_rowSize (allocators st 0) \<and>
         (int i < P \<longrightarrow> partition_done inc (allocators st i) (allocators st1 i))"
proof -
  from resupply_partitions_state[OF assms] have
    sh: "same_head st st1"
    and al: "\<And>j. if nat 0 \<le> j \<and> int j < P
                  then partition_done inc (allocators st j) (allocators st1 j)
                  else allocators st1 j = allocators st j"
    by simp_all
  have "hpa_rowSize (allocators st1 0) = hpa_rowSize (allocators st 0)"
    using al[of 0] by (auto dest: partition_done_rowSize split: if_splits)
  moreover have "int i < P \<longrightarrow> partition_done inc (allocators st i) (allocators st1 i)"
    using al[of i] by simp
  ultimately show ?thesis using sh by (simp add: same_head_def)
qed

lemma restock_install_arena:
  "arena_allocate (arena st) sz = None \<Longrightarrow> restock_install st sz a = Inl ArenaExhausted"
  by (simp add: restock_install_def)

lemma scenario_raise:
  "raiseRowLimits scenario_full_partition 100 =
     (40, scenario_full_partition
            \<lparr>ranges0 := (ranges0 scenario_full_partition)\<lparr>rowLimit := 984, fixedFull := False\<rparr>\<rparr>)"
  "fst (raiseRowLimits scenario_full_partition 30) = 30"
  by (simp_all add: raiseRowLimits_def range_raiseRowLimit_def Let_def scenario_full_partition_def
      AllocationRange_default_def)

lemma scenario_restock:
  "restockAllocator scenario_state 100 scenario_full_partition =
     Inr (scenario_state
            \<lparr>arena := \<lparr>arena_next = 65636, arena_free = 65436\<rparr>,
             buffers := buffers scenario_state @ [\<lparr>buf_addr = 65536, buf_size = 100\<rparr>]\<rparr>,
          scenario_full_partition
            \<lparr>ranges0 := (ranges0 scenario_full_partition)\<lparr>rowLimit := 984, fixedFull := False\<rparr>,
             ranges1 := AllocationRange_new 65536 100 100 16\<rparr>)"
  unfolding restockAllocator_def Let_def scenario_raise
  by (simp add: restock_retire_def restock_install_def Let_def scenario_state_fields(6)
      arena_allocate_def range_empty_def scenario_full_partition_def)

lemma scenario_partitions_any:
  assumes "allocators st =
      (\<lambda>i. if i = 0 then scenario_partition 8192 30 else scenario_partition 16384 20)"
  shows "resupply_partitions 1648 2 0 st = Inr st"
proof -
  have a: "clearOverflows (scenario_partition b n) = scenario_partition b n"
    if "0 \<le> n" "n \<le> 254" for b n
    using that
    by (simp add: clearOverflows_def scenario_partition_def range_clearOverflows_def
        AllocationRange_default_def)
  have av: "availableFixed (scenario_partition b n) = 4064 - n * 16" if "0 \<le> n" "n \<le> 254" for b n
    using that
    by (simp add: availableFixed_def scenario_partition_def range_availableFixed_def
        AllocationRange_default_def)
  have upd: "st\<lparr>allocators := (allocators st)(i := allocators st i)\<rparr> = st" for i
    by simp
  have p0: "resupply_partition 1648 0 st = Inr st"
    unfolding resupply_partition_def Let_def
    using upd[of 0] by (simp add: assms a av)
  have p1: "resupply_partition 1648 (Suc 0) st = Inr st"
    unfolding resupply_partition_def Let_def
    using upd[of "Suc 0"] by (simp add: assms a av)
  show ?thesis
    by (simp add: resupply_partitions.simps p0 p1)
qed

lemma scenario_resupply_again:
  "resupplyHashTable scenario_constants scenario_stream scenario_aggregation
     (Some scenario_program) scenario_rehashed scenario_device
   = Inr (setSizesToSafe scenario_rehashed,
          scenario_device\<lparr>ops :=
            [StreamFromReserve, PrefetchToHost 1024 512, Wait,
             PrefetchToDevice 1024 512, Wait, ReleaseStream]\<rparr>)"
proof -
  have ht: "hashTable scenario_rehashed =
      \<lparr>sizeMask = 63, partitionMask = 1, numDistinct = 50, maxEntries = 210, buckets = 65536\<rparr>"
    by (simp add: scenario_rehashed_def)
  have al: "allocators scenario_rehashed =
      (\<lambda>i. if i = 0 then scenario_partition 8192 30 else scenario_partition 16384 20)"
    by (simp add: scenario_rehashed_def scenario_state_fields)
  have new: "resupply_newSize scenario_constants scenario_stream (hashTable scenario_rehashed) = 256"
    by (simp add: resupply_newSize_def scenario_numFailed nextPowerOfTwo_def
        nextPowerOfTwo_from.simps ht)
  have inc: "resupply_increment scenario_constants scenario_stream scenario_aggregation
               (hashTable scenario_rehashed) = 1648"
    unfolding resupply_increment_def new by (simp add: ht scenario_aggregation_def cdiv_def)
  have slots: "numSlots scenario_constants (hashTable scenario_rehashed) = 256"
    by (simp add: numSlots_def ht scenario_constants_def)
  have head: "alignedHead scenario_rehashed = 1024" "alignedHeadSize scenario_rehashed = 512"
    "debugActiveBlockCounter scenario_rehashed = 0"
    by (simp_all add: scenario_rehashed_def scenario_state_fields)
  have pm: "partitionMask (hashTable scenario_rehashed) + 1 = 2" by (simp add: ht)
  show ?thesis
    unfolding resupplyHashTable_def Let_def new inc pm scenario_partitions_any[OF al]
    by (simp add: head slots setSizesToSafe_head scenario_device_def)
qed

lemma scenario_short_fields:
  "debugActiveBlockCounter scenario_short_state = 0"
  "alignedHead scenario_short_state = 1024"
  "alignedHeadSize scenario_short_state = 512"
  "hashTable scenario_short_state = hashTable scenario_state"
  "buffers scenario_short_state = [\<lparr>buf_addr = 1024, buf_size = 512\<rparr>, \<lparr>buf_addr = 2048, buf_size = 256\<rparr>]"
  "arena scenario_short_state = \<lparr>arena_next = 65536, arena_free = 65536\<rparr>"
  "allocators scenario_short_state =
      (\<lambda>i. if i = 0 then scenario_partition 8192 250 else scenario_partition 16384 20)"
  by (simp_all add: scenario_short_state_def scenario_state_fields)

lemma scenario_short_restock:
  "restockAllocator scenario_short_state 1648 (scenario_partition 8192 250) =
     Inr (scenario_short_state
            \<lparr>arena := \<lparr>arena_next = 67184, arena_free = 63888\<rparr>,
             buffers := buffers scenario_short_state @ [\<lparr>buf_addr = 65536, buf_size = 1648\<rparr>]\<rparr>,
          scenario_restocked_partition)"
proof -
  have raise: "raiseRowLimits (scenario_partition 8192 250) 1648 = (0, scenario_partition 8192 250)"
    by (simp add: raiseRowLimits_def range_raiseRowLimit_def Let_def scenario_partition_def
        AllocationRange_default_def)
  show ?thesis
    unfolding restockAllocator_def Let_def raise
    by (simp add: restock_retire_def restock_install_def Let_def scenario_short_fields(6)
        arena_allocate_def range_empty_def scenario_partition_def scenario_restocked_partition_def)
qed

lemma scenario_short_partitions:
  "resupply_partitions 1648 2 0 scenario_short_state = Inr scenario_short_restocked"
proof -
  have a: "clearOverflows (scenario_partition b n) = scenario_partition b n"
    if "0 \<le> n" "n \<le> 254" for b n
    using that
    by (simp add: clearOverflows_def scenario_partition_def range_clearOverflows_def
        AllocationRange_default_def)
  have av: "availableFixed (scenario_partition b n) = 4064 - n * 16" if "0 \<le> n" "n \<le> 254" for b n
    using that
    by (simp add: availableFixed_def scenario_partition_def range_availableFixed_def
        AllocationRange_default_def)
  have n: "narrow32 1648 = 1648" by (rule narrow32_id) simp_all
  have p0: "resupply_partition 1648 0 scenario_short_state = Inr scenario_short_restocked"
    unfolding resupply_partition_def Let_def n
    by (simp add: scenario_short_fields(7) a av scenario_short_restock scenario_short_restocked_def
        fun_eq_iff)
  have al: "allocators scenario_short_restocked =
      (\<lambda>i. if i = 0 then scenario_restocked_partition else scenario_partition 16384 20)"
    by (simp add: scenario_short_restocked_def)
  have upd: "st\<lparr>allocators := (allocators st)(i := allocators st i)\<rparr> = st" for i and st :: AggregateOperatorState
    by simp
  have p1: "resupply_partition 1648 (Suc 0) scenario_short_restocked = Inr scenario_short_restocked"
    unfolding resupply_partition_def Let_def
    using upd[of scenario_short_restocked "Suc 0"] by (simp add: al a av)
  show ?thesis
    by (simp add: resupply_partitions.simps p0 p1)
qed

lemma scenario_short_restocked_fields:
  "alignedHead scenario_short_restocked = 1024"
  "alignedHeadSize scenario_short_restocked = 512"
  "hashTable scenario_short_restocked =
     \<lparr>sizeMask = 15, partitionMask = 1, numDistinct = 50, maxEntries = 50, buckets = 2048\<rparr>"
  "buffers scenario_short_restocked =
     [\<lparr>buf_addr = 1024, buf_size = 512\<rparr>, \<lparr>buf_addr = 2048, buf_size = 256\<rparr>,
      \<lparr>buf_addr = 65536, buf_size = 1648\<rparr>]"
  "arena scenario_short_restocked = \<lparr>arena_next = 67184, arena_free = 63888\<rparr>"
  by (simp_all add: scenario_short_restocked_def scenario_short_fields scenario_state_fields)

lemma scenario_short_rehash:
  "resupply_rehash scenario_constants 256 scenario_short_restocked
     (resupply_dev1 scenario_short_state scenario_device)
     = Inr (scenario_short_rehashed,
            scenario_device\<lparr>ops := [StreamFromReserve, PrefetchToHost 1024 512, Wait,
                                    Memset 67184 0 1024]\<rparr>,
            \<lparr>buf_addr = 2048, buf_size = 256\<rparr>, 16)"
  by (simp add: resupply_rehash_def scenario_short_restocked_fields scenario_short_fields
      arena_allocate_def scenario_constants_def
      cdiv_def Let_def scenario_short_rehashed_def resupply_dev1_def scenario_device_def)

lemma scenario_short_resupply:
  "resupplyHashTable scenario_constants scenario_stream scenario_aggregation
     (Some scenario_program) scenario_short_state scenario_device
   = Inr (setSizesToSafe scenario_short_rehashed,
          scenario_device\<lparr>ops :=
            [StreamFromReserve, PrefetchToHost 1024 512, Wait, Memset 67184 0 1024,
             PrefetchToDevice 1024 512,
             SetupAggregation \<lparr>ctl_head = 1024, ctl_oldBuckets = 2048, ctl_numOldBuckets = 16\<rparr> 6 77,
             Wait, ReleaseStream]\<rparr>)"
proof -
  have new: "resupply_newSize scenario_constants scenario_stream (hashTable scenario_short_state) = 256"
    unfolding scenario_short_fields(4) by (rule scenario_newSize)
  have inc: "resupply_increment scenario_constants scenario_stream scenario_aggregation
     (hashTable scenario_short_state) = 1648"
    unfolding scenario_short_fields(4) by (rule scenario_increment)
  have slots: "numSlots scenario_constants (hashTable scenario_short_restocked) = 64"
    by (simp add: numSlots_def scenario_short_restocked_fields scenario_constants_def)
  have head: "alignedHead (setSizesToSafe scenario_short_rehashed) = 1024"
    "alignedHeadSize (setSizesToSafe scenario_short_rehashed) = 512"
    by (simp_all add: setSizesToSafe_head scenario_short_rehashed_def scenario_short_restocked_fields)
  have pm: "partitionMask (hashTable scenario_short_state) + 1 = 2"
    by (simp add: scenario_short_fields scenario_state_fields)
  show ?thesis
    unfolding resupplyHashTable_def Let_def new inc pm
      scenario_short_partitions resupply_dev1_def[symmetric]
    by (simp add: scenario_short_fields(1) slots scenario_short_rehash head scenario_program_def
        scenario_aggregation_def)
qed

lemma scenario_short_restock_available:
  assumes "restockAllocator st 1648 (scenario_partition 8192 250) = Inr (st', a)"
  shows "availableFixed a = 1696"
proof -
  have raise: "raiseRowLimits (scenario_partition 8192 250) 1648 = (0, scenario_partition 8192 250)"
    by (simp add: raiseRowLimits_def range_raiseRowLimit_def Let_def scenario_partition_def
        AllocationRange_default_def)
  have nf: "\<not> fixedFull (ranges0 (scenario_partition 8192 250))"
    "\<not> range_empty (ranges0 (scenario_partition 8192 250))"
    by (simp_all add: scenario_partition_def range_empty_def)
  from assms have inst: "restock_install st 1648 (scenario_partition 8192 250) = Inr (st', a)"
    unfolding restockAllocator_def Let_def raise by (simp add: restock_retire_def nf)
  show ?thesis
  proof (cases "arena_allocate (arena st) 1648")
    case None
    then show ?thesis using inst by (simp add: restock_install_def)
  next
    case (Some r)
    obtain buffer arena1 where r: "r = (buffer, arena1)" by (cases r)
    from inst have a: "a = (scenario_partition 8192 250)
           \<lparr>ranges1 := AllocationRange_new (buf_addr buffer) 1648 1648
                         (hpa_rowSize (scenario_partition 8192 250))\<rparr>"
      unfolding restock_install_def Some r by (simp add: Let_def nf)
    show ?thesis
      unfolding a
      by (simp add: availableFixed_def range_availableFixed_def AllocationRange_new_def Let_def
          scenario_partition_def cdiv_def)
  qed
qed

lemma scenario_retiring_raise:
  "raiseRowLimits scenario_retiring_partition 1000 = (0, scenario_retiring_partition)"
  by (simp add: raiseRowLimits_def range_raiseRowLimit_def Let_def scenario_retiring_partition_def)

subsection \<open>restockAllocator\<close>

text \<open>
  C7, as amended.  \<^verbatim>\<open>restockAllocator(state, size, allocator)\<close> first raises the row
  limits; when the amount raised covers the request it returns with nothing allocated and
  no range moved.  Otherwise a current range that is full for fixed length rows is moved
  to the retired ranges of the operator state and the secondary range takes its place;
  then a buffer is taken from the arena (a fatal condition if the arena cannot supply it)
  and recorded in the buffers of the state, and a new range over it is installed in a
  free slot: after a retirement in the current slot if the promoted range is empty and in
  the secondary slot otherwise; without a retirement in the current or the secondary slot,
  whichever is empty.  The buffer and the new range have the full requested size, not the
  request less the amount raised.  Nothing is said of the slots when no range was retired
  and neither slot is empty.
\<close>

theorem restockAllocator_steps:
  "(sz - fst (raiseRowLimits allocator sz) \<le> 0 \<longrightarrow>
      restockAllocator state sz allocator = Inr (state, snd (raiseRowLimits allocator sz))) \<and>
   (0 < sz - fst (raiseRowLimits allocator sz) \<longrightarrow>
      (arena_allocate (arena state) sz = None \<longrightarrow>
         restockAllocator state sz allocator = Inl ArenaExhausted) \<and>
      (\<forall>buffer arena1. arena_allocate (arena state) sz = Some (buffer, arena1) \<longrightarrow>
         (\<exists>state' allocator'.
            restockAllocator state sz allocator = Inr (state', allocator') \<and>
            arena state' = arena1 \<and> buffers state' = buffers state @ [buffer] \<and>
            buf_size buffer = sz \<and>
            capacity (AllocationRange_new (buf_addr buffer) sz sz (hpa_rowSize allocator)) = sz \<and>
            rowLimit (AllocationRange_new (buf_addr buffer) sz sz (hpa_rowSize allocator)) = sz \<and>
            base (AllocationRange_new (buf_addr buffer) sz sz (hpa_rowSize allocator))
              = buf_addr buffer \<and>
            (fixedFull (ranges0 (snd (raiseRowLimits allocator sz))) \<longrightarrow>
               os_ranges state' = os_ranges state @ [ranges0 (snd (raiseRowLimits allocator sz))] \<and>
               (if range_empty (ranges1 (snd (raiseRowLimits allocator sz)))
                then ranges0 allocator'
                       = AllocationRange_new (buf_addr buffer) sz sz (hpa_rowSize allocator) \<and>
                     ranges1 allocator' = AllocationRange_default
                else ranges0 allocator' = ranges1 (snd (raiseRowLimits allocator sz)) \<and>
                     ranges1 allocator'
                       = AllocationRange_new (buf_addr buffer) sz sz (hpa_rowSize allocator))) \<and>
            (\<not> fixedFull (ranges0 (snd (raiseRowLimits allocator sz))) \<longrightarrow>
               os_ranges state' = os_ranges state \<and>
               (range_empty (ranges0 (snd (raiseRowLimits allocator sz))) \<longrightarrow>
                  ranges0 allocator'
                    = AllocationRange_new (buf_addr buffer) sz sz (hpa_rowSize allocator) \<and>
                  ranges1 allocator' = ranges1 (snd (raiseRowLimits allocator sz))) \<and>
               (\<not> range_empty (ranges0 (snd (raiseRowLimits allocator sz))) \<and>
                range_empty (ranges1 (snd (raiseRowLimits allocator sz))) \<longrightarrow>
                  ranges0 allocator' = ranges0 (snd (raiseRowLimits allocator sz)) \<and>
                  ranges1 allocator'
                    = AllocationRange_new (buf_addr buffer) sz sz (hpa_rowSize allocator))))))"
proof -
  let ?a1 = "snd (raiseRowLimits allocator sz)"
  let ?new = "\<lambda>buffer. AllocationRange_new (buf_addr buffer) sz sz (hpa_rowSize allocator)"
  have covered: "restockAllocator state sz allocator = Inr (state, ?a1)"
    if "sz - fst (raiseRowLimits allocator sz) \<le> 0"
    using that by (simp add: restockAllocator_def Let_def)
  have short: "restockAllocator state sz allocator
      = restock_install (fst (restock_retire state ?a1)) sz (snd (restock_retire state ?a1))"
    if "0 < sz - fst (raiseRowLimits allocator sz)"
    using that by (simp add: restockAllocator_def Let_def)
  have exhausted: "restockAllocator state sz allocator = Inl ArenaExhausted"
    if "0 < sz - fst (raiseRowLimits allocator sz)" "arena_allocate (arena state) sz = None"
    unfolding short[OF that(1)]
    by (rule restock_install_arena) (simp add: restock_retire_arena that(2))
  have newRange: "capacity (?new buffer) = sz \<and> rowLimit (?new buffer) = sz \<and>
                  base (?new buffer) = buf_addr buffer" for buffer
    by (simp add: AllocationRange_new_def Let_def)
  have installed: "\<exists>state' allocator'.
            restockAllocator state sz allocator = Inr (state', allocator') \<and>
            arena state' = arena1 \<and> buffers state' = buffers state @ [buffer] \<and>
            buf_size buffer = sz \<and>
            capacity (?new buffer) = sz \<and> rowLimit (?new buffer) = sz \<and>
            base (?new buffer) = buf_addr buffer \<and>
            (fixedFull (ranges0 ?a1) \<longrightarrow>
               os_ranges state' = os_ranges state @ [ranges0 ?a1] \<and>
               (if range_empty (ranges1 ?a1)
                then ranges0 allocator' = ?new buffer \<and> ranges1 allocator' = AllocationRange_default
                else ranges0 allocator' = ranges1 ?a1 \<and> ranges1 allocator' = ?new buffer)) \<and>
            (\<not> fixedFull (ranges0 ?a1) \<longrightarrow>
               os_ranges state' = os_ranges state \<and>
               (range_empty (ranges0 ?a1) \<longrightarrow>
                  ranges0 allocator' = ?new buffer \<and> ranges1 allocator' = ranges1 ?a1) \<and>
               (\<not> range_empty (ranges0 ?a1) \<and> range_empty (ranges1 ?a1) \<longrightarrow>
                  ranges0 allocator' = ranges0 ?a1 \<and> ranges1 allocator' = ?new buffer))"
    if short': "0 < sz - fst (raiseRowLimits allocator sz)"
      and al: "arena_allocate (arena state) sz = Some (buffer, arena1)"
    for buffer arena1
  proof -
    have rs: "hpa_rowSize ?a1 = hpa_rowSize allocator" by (rule raiseRowLimits_rowSize)
    have bs: "buf_size buffer = sz" using arena_allocate_size[OF al] by simp
    show ?thesis
    proof (cases "fixedFull (ranges0 ?a1)")
      case True
      then show ?thesis
        unfolding short[OF short'] using al bs rs newRange[of buffer]
        by (simp add: restock_retire_def restock_install_def Let_def)
    next
      case False
      then show ?thesis
        unfolding short[OF short'] using al bs rs newRange[of buffer]
        by (simp add: restock_retire_def restock_install_def Let_def)
    qed
  qed
  show ?thesis
    apply (intro conjI impI allI)
      apply (erule covered)
     apply (erule (1) exhausted)
    apply (erule (1) installed)
    done
qed

text \<open>
  The witness: a request of 30 bytes is covered by the 40 reserved bytes of the full
  partition.  A request of 1000 bytes on the partition with a full current range and
  nothing in reserve retires the current range, promotes the secondary range and installs
  the new range in the secondary slot.
\<close>

theorem restockAllocator_steps_witness:
  "30 - fst (raiseRowLimits scenario_full_partition 30) \<le> 0 \<and>
   restockAllocator scenario_state 30 scenario_full_partition
     = Inr (scenario_state, snd (raiseRowLimits scenario_full_partition 30)) \<and>
   0 < 1000 - fst (raiseRowLimits scenario_retiring_partition 1000) \<and>
   arena_allocate (arena scenario_state) 1000
     = Some (\<lparr>buf_addr = 65536, buf_size = 1000\<rparr>, \<lparr>arena_next = 66536, arena_free = 64536\<rparr>) \<and>
   fixedFull (ranges0 (snd (raiseRowLimits scenario_retiring_partition 1000))) \<and>
   \<not> range_empty (ranges1 (snd (raiseRowLimits scenario_retiring_partition 1000))) \<and>
   (\<exists>state' allocator'.
      restockAllocator scenario_state 1000 scenario_retiring_partition = Inr (state', allocator') \<and>
      buffers state' = buffers scenario_state @ [\<lparr>buf_addr = 65536, buf_size = 1000\<rparr>] \<and>
      os_ranges state' = os_ranges scenario_state @ [ranges0 scenario_retiring_partition] \<and>
      ranges0 allocator' = ranges1 scenario_retiring_partition \<and>
      ranges1 allocator' = AllocationRange_new 65536 1000 1000 16)"
proof -
  let ?buffer = "\<lparr>buf_addr = 65536, buf_size = 1000\<rparr>"
  let ?a1 = "snd (raiseRowLimits scenario_retiring_partition 1000)"
  have c: "30 - fst (raiseRowLimits scenario_full_partition 30) \<le> 0"
    by (simp add: scenario_raise)
  have s: "0 < 1000 - fst (raiseRowLimits scenario_retiring_partition 1000)"
    by (simp add: scenario_retiring_raise)
  have al: "arena_allocate (arena scenario_state) 1000
     = Some (?buffer, \<lparr>arena_next = 66536, arena_free = 64536\<rparr>)"
    by (simp add: scenario_state_fields(6) arena_allocate_def)
  have full: "fixedFull (ranges0 ?a1)"
    and live: "\<not> range_empty (ranges1 ?a1)"
    and rs: "hpa_rowSize scenario_retiring_partition = 16"
    and a1: "?a1 = scenario_retiring_partition"
    by (simp_all add: scenario_retiring_raise range_empty_def)
       (simp_all add: scenario_retiring_partition_def)
  from restockAllocator_steps[of 30 scenario_full_partition scenario_state, THEN conjunct1, THEN mp, OF c]
  have 1: "restockAllocator scenario_state 30 scenario_full_partition
     = Inr (scenario_state, snd (raiseRowLimits scenario_full_partition 30))" .
  from restockAllocator_steps[of 1000 scenario_retiring_partition scenario_state,
      THEN conjunct2, THEN mp, OF s, THEN conjunct2, THEN spec, THEN spec, THEN mp, OF al]
  obtain state' allocator' where
    r: "restockAllocator scenario_state 1000 scenario_retiring_partition = Inr (state', allocator')"
    and b: "buffers state' = buffers scenario_state @ [?buffer]"
    and retire: "fixedFull (ranges0 ?a1) \<longrightarrow>
               os_ranges state' = os_ranges scenario_state @ [ranges0 ?a1] \<and>
               (if range_empty (ranges1 ?a1)
                then ranges0 allocator'
                       = AllocationRange_new (buf_addr ?buffer) 1000 1000
                           (hpa_rowSize scenario_retiring_partition) \<and>
                     ranges1 allocator' = AllocationRange_default
                else ranges0 allocator' = ranges1 ?a1 \<and>
                     ranges1 allocator'
                       = AllocationRange_new (buf_addr ?buffer) 1000 1000
                           (hpa_rowSize scenario_retiring_partition))"
    by (elim exE conjE)
  note moved = mp[OF retire full, unfolded if_not_P[OF live] a1 rs]
  note live' = live[unfolded a1]
  have 2: "\<exists>state' allocator'.
      restockAllocator scenario_state 1000 scenario_retiring_partition = Inr (state', allocator') \<and>
      buffers state' = buffers scenario_state @ [?buffer] \<and>
      os_ranges state' = os_ranges scenario_state @ [ranges0 scenario_retiring_partition] \<and>
      ranges0 allocator' = ranges1 scenario_retiring_partition \<and>
      ranges1 allocator' = AllocationRange_new 65536 1000 1000 16"
    using r b moved live' by (intro exI[of _ state'] exI[of _ allocator'] conjI) simp_all
  from c 1 s al full live 2 show ?thesis by (intro conjI)
qed


text \<open>
  The claim as it stands has the new range sized to the remainder of the request.  For a
  request of 100 bytes of which 40 were raised, the remainder is 60, and the buffer
  allocated and the capacity of the new range are 100.
\<close>

theorem restockAllocator_full_size_counterexample:
  "fst (raiseRowLimits scenario_full_partition 100) = 40 \<and>
   (case restockAllocator scenario_state 100 scenario_full_partition of
      Inl e \<Rightarrow> None
    | Inr r \<Rightarrow> Some (capacity (ranges1 (snd r)), buf_size (last (buffers (fst r)))))
   = Some (100, 100)"
  by (simp add: scenario_raise scenario_restock AllocationRange_new_def Let_def)

subsection \<open>A freshly installed range in the result drain\<close>

text \<open>
  C6.  Repeated calls of \<^verbatim>\<open>makeResultRows\<close> with the persisted cursor are to hand out the
  address of every row that the bitmaps do not mark deleted exactly once, at most
  \<open>maxRows\<close> in a call.  The source does not do so on a range in which no row has been
  allocated and whose bitmap is shorter than a row, which is how \<^verbatim>\<open>restockAllocator\<close>
  installs a range.  The range that \<^verbatim>\<open>restockAllocator\<close> installs for a request of 100
  bytes has \<open>firstRowOffset = rowOffset = 8\<close> with rows of 16 bytes;
  \<^verbatim>\<open>countResultRows\<close> counts no row in it, and \<^verbatim>\<open>makeResultRows\<close>, whose scan limit
  \<open>rowOffset - rowSize\<close> wraps around, returns five addresses from it.  With a cap of
  zero the call on the range of the scenario returns one address, more than the cap: the
  cap is tested after a row was stored.
\<close>

theorem makeResultRows_fresh_range_overrun:
  "(case restockAllocator scenario_state 100 scenario_full_partition of
      Inl e \<Rightarrow> None
    | Inr r \<Rightarrow> Some (ranges1 (snd r))) = Some (AllocationRange_new 65536 100 100 16) \<and>
   firstRowOffset (AllocationRange_new 65536 100 100 16) = 8 \<and>
   rowOffset (AllocationRange_new 65536 100 100 16) = 8 \<and>
   countResultRows [AllocationRange_new 65536 100 100 16] 16 = (0, 0) \<and>
   remainingRows [AllocationRange_new 65536 100 100 16] 16 0 0 = [] \<and>
   makeResultRows [AllocationRange_new 65536 100 100 16] 1 16 5 0 0
     = Some (5, 0, 5, [65544, 65560, 65576, 65592, 65608]) \<and>
   makeResultRows [scenario_range] 1 16 0 0 0 = Some (1, 0, 2, [4120])"
proof -
  let ?rg = "AllocationRange_new 65536 100 100 16"
  have rg: "?rg = \<lparr>fixedFull = False, base = 65536, capacity = 100, rowLimit = 100,
                    firstRowOffset = 8, rowOffset = 8, stringOffset = 100,
                    deleted = (\<lambda>i. False)\<rparr>"
    by (simp add: AllocationRange_new_def Let_def cdiv_def)
  have 1: "(case restockAllocator scenario_state 100 scenario_full_partition of
      Inl e \<Rightarrow> None
    | Inr r \<Rightarrow> Some (ranges1 (snd r))) = Some ?rg"
    by (simp add: scenario_restock)
  have 2: "firstRowOffset ?rg = 8" "rowOffset ?rg = 8"
    unfolding rg by simp_all
  have 3: "countResultRows [?rg] 16 = (0, 0)"
    unfolding rg
    by (simp add: countResultRows_def countResultRows_step_def countBits_def cdiv_def Let_def)
  have "rowsIn 16 ?rg = 0"
    unfolding rg by (simp add: rowsIn_def cdiv_def)
  then have 4: "remainingRows [?rg] 16 0 0 = []"
    by (simp add: remainingRows_def liveRowsFrom_def)
  have 5: "makeResultRows [?rg] 1 16 5 0 0 = Some (5, 0, 5, [65544, 65560, 65576, 65592, 65608])"
    unfolding makeResultRows_def rg
    by (simp add: makeResultRows_ranges.simps makeResultRows_rows.simps isBitSet_def
        makeResultRows_limit_def)
  have 6: "makeResultRows [scenario_range] 1 16 0 0 0 = Some (1, 0, 2, [4120])"
    unfolding makeResultRows_def scenario_range_def
    by (simp add: makeResultRows_ranges.simps makeResultRows_rows.simps isBitSet_def
        makeResultRows_limit_def)
  from 1 2 3 4 5 6 show ?thesis by (intro conjI)
qed

subsection \<open>resupplyHashTable: when the table is rehashed\<close>

text \<open>
  C2.  When \<^verbatim>\<open>resupplyHashTable\<close> returns (the bucket array being \<^verbatim>\<open>buffers[1]\<close>), it
  has rehashed if and only if \<open>newSize\<close> exceeds the slot capacity
  \<open>(sizeMask + 1) * kNumSlots\<close>.  In that case a new bucket array of
  \<open>newSize / kNumSlots\<close> buckets is allocated from the arena: it starts at or after the
  address that the arena had reached before the call, the arena ends right behind it and
  has at least its size less memory left, so that it is not the old bucket array if that
  was allocated before the call.  The new array replaces \<^verbatim>\<open>buffers[1]\<close> and is zeroed on
  the device, the header gets the new size mask, bucket pointer and maximum number of
  entries \<open>newSize / 6 * 5\<close>, and the rehash entry point is launched with the old bucket
  array and its number of buckets.  Otherwise the header and the bucket array are as
  before and neither a zero fill nor a launch is issued.  The slot capacity never
  decreases.
\<close>

theorem resupplyHashTable_rehash_iff:
  assumes ret: "resupplyHashTable K stream agg exe state dev = Inr (state', dev')"
    and bk: "1 < length (buffers state)"
  shows
    "(numSlots K (hashTable state) < resupply_newSize K stream (hashTable state) \<longrightarrow>
        (\<exists>program buffer.
           exe = Some program \<and>
           buf_size buffer = cdiv (resupply_newSize K stream (hashTable state)) (kNumSlots K)
                               * sizeofGpuBucketMembers K \<and>
           arena_next (arena state) \<le> buf_addr buffer \<and>
           arena_next (arena state') = buf_addr buffer + nat (buf_size buffer) \<and>
           arena_free (arena state') + buf_size buffer \<le> arena_free (arena state) \<and>
           (buf_addr (buffers state ! 1) < arena_next (arena state) \<longrightarrow>
              buf_addr buffer \<noteq> buf_addr (buffers state ! 1)) \<and>
           buffers state' ! 1 = buffer \<and>
           hashTable state' = (hashTable state)
             \<lparr>sizeMask := cdiv (resupply_newSize K stream (hashTable state)) (kNumSlots K) - 1,
              buckets := buf_addr buffer,
              maxEntries := cdiv (resupply_newSize K stream (hashTable state)) 6 * 5\<rparr> \<and>
           ops dev' = ops dev @
             [StreamFromReserve, PrefetchToHost (alignedHead state) (alignedHeadSize state), Wait,
              Memset (buf_addr buffer) 0 (buf_size buffer),
              PrefetchToDevice (alignedHead state) (alignedHeadSize state),
              SetupAggregation
                \<lparr>ctl_head = alignedHead state,
                 ctl_oldBuckets = buf_addr (buffers state ! 1),
                 ctl_numOldBuckets = sizeMask (hashTable state) + 1\<rparr>
                (entryPointIdxBySerial program (agg_serial agg)) (kernel program),
              Wait, ReleaseStream])) \<and>
     (\<not> numSlots K (hashTable state) < resupply_newSize K stream (hashTable state) \<longrightarrow>
        hashTable state' = hashTable state \<and>
        buffers state' ! 1 = buffers state ! 1 \<and>
        ops dev' = ops dev @
          [StreamFromReserve, PrefetchToHost (alignedHead state) (alignedHeadSize state), Wait,
           PrefetchToDevice (alignedHead state) (alignedHeadSize state),
           Wait, ReleaseStream]) \<and>
     ((\<exists>control entryPointIdx k. SetupAggregation control entryPointIdx k
           \<in> set (drop (length (ops dev)) (ops dev')))
        \<longleftrightarrow> numSlots K (hashTable state) < resupply_newSize K stream (hashTable state)) \<and>
     (0 < kNumSlots K \<longrightarrow> numSlots K (hashTable state) \<le> numSlots K (hashTable state'))"
proof -
  let ?new = "resupply_newSize K stream (hashTable state)"
  from ret show ?thesis
  proof (cases rule: resupplyHashTable_Inr)
    case (rehash state1 state2 dev2 oldBuckets numOldBuckets program)
    from resupply_partitions_state[OF rehash(2)] have sh: "same_head state state1" by simp
    then obtain extra where
      ht1: "hashTable state1 = hashTable state" and ah1: "alignedHead state1 = alignedHead state"
      and as1: "alignedHeadSize state1 = alignedHeadSize state"
      and b1: "buffers state1 = buffers state @ extra"
      by (auto simp: same_head_def)
    have b11: "buffers state1 ! 1 = buffers state ! 1" using bk b1 by (simp add: nth_append)
    have len1: "1 < length (buffers state1)" using bk b1 by simp
    from resupply_rehash_Inr[OF rehash(4)] obtain buffer where
      old: "oldBuckets = buffers state1 ! 1" and nold: "numOldBuckets = sizeMask (hashTable state1) + 1"
      and sz: "buf_size buffer = cdiv ?new (kNumSlots K) * sizeofGpuBucketMembers K"
      and b2: "buffers state2 = (buffers state1)[1 := buffer]"
      and ht2: "hashTable state2 = (hashTable state1)\<lparr>sizeMask := cdiv ?new (kNumSlots K) - 1,
                                             buckets := buf_addr buffer,
                                             maxEntries := cdiv ?new 6 * 5\<rparr>"
      and ah2: "alignedHead state2 = alignedHead state1"
      and as2: "alignedHeadSize state2 = alignedHeadSize state1"
      and d2: "dev2 = (resupply_dev1 state dev)\<lparr>ops := ops (resupply_dev1 state dev) @
                  [Memset (buf_addr buffer) 0 (buf_size buffer)]\<rparr>"
      and al: "arena_allocate (arena state1) (cdiv ?new (kNumSlots K) * sizeofGpuBucketMembers K)
                 = Some (buffer, arena state2)"
      by (elim conjE exE)
    have ar': "arena state' = arena state2" unfolding rehash(6) by (rule setSizesToSafe_arena)
    from resupply_partitions_arena[OF rehash(2)] have
      n1: "arena_next (arena state) \<le> arena_next (arena state1)"
      and f1: "arena_free (arena state1) \<le> arena_free (arena state)"
      by simp_all
    from arena_allocate_grows[OF al] arena_allocate_size[OF al] have
      at: "buf_addr buffer = arena_next (arena state1)"
      and n2: "arena_next (arena state2) = arena_next (arena state1) + nat (buf_size buffer)"
      and f2: "arena_free (arena state2) = arena_free (arena state1) - buf_size buffer"
      by simp_all
    have fresh: "arena_next (arena state) \<le> buf_addr buffer" using n1 at by simp
    have behind: "arena_next (arena state') = buf_addr buffer + nat (buf_size buffer)"
      using n2 at ar' by simp
    have less: "arena_free (arena state') + buf_size buffer \<le> arena_free (arena state)"
      using f1 f2 ar' by simp
    have other: "buf_addr (buffers state ! 1) < arena_next (arena state) \<longrightarrow>
              buf_addr buffer \<noteq> buf_addr (buffers state ! 1)"
      using fresh by auto
    have gt: "numSlots K (hashTable state) < ?new" using rehash(3) ht1 by simp
    have ht': "hashTable state' = (hashTable state)\<lparr>sizeMask := cdiv ?new (kNumSlots K) - 1,
                                             buckets := buf_addr buffer,
                                             maxEntries := cdiv ?new 6 * 5\<rparr>"
      using rehash(6) ht2 ht1 setSizesToSafe_head[of state2] by simp
    have bf': "buffers state' ! 1 = buffer"
      using rehash(6) b2 len1 setSizesToSafe_head[of state2] by simp
    have ops': "ops dev' = ops dev @
             [StreamFromReserve, PrefetchToHost (alignedHead state) (alignedHeadSize state), Wait,
              Memset (buf_addr buffer) 0 (buf_size buffer),
              PrefetchToDevice (alignedHead state) (alignedHeadSize state),
              SetupAggregation
                \<lparr>ctl_head = alignedHead state,
                 ctl_oldBuckets = buf_addr (buffers state ! 1),
                 ctl_numOldBuckets = sizeMask (hashTable state) + 1\<rparr>
                (entryPointIdxBySerial program (agg_serial agg)) (kernel program),
              Wait, ReleaseStream]"
      unfolding rehash(7) d2 resupply_dev1_def
      using setSizesToSafe_head[of state2] ah2 as2 ah1 as1 old nold b11 ht1 by simp
    have grow: "numSlots K (hashTable state) \<le> numSlots K (hashTable state')" if k: "0 < kNumSlots K"
    proof -
      have "0 \<le> ?new" using resupply_newSize_pos[of K stream "hashTable state"] by simp
      then have cd: "cdiv ?new (kNumSlots K) = ?new div kNumSlots K" using k by (rule cdiv_nonneg)
      have "(sizeMask (hashTable state) + 1) * kNumSlots K \<le> ?new"
        using gt by (simp add: numSlots_def)
      then have "sizeMask (hashTable state) + 1 \<le> ?new div kNumSlots K"
        using int_le_div_iff[OF k] by simp
      then have "(sizeMask (hashTable state) + 1) * kNumSlots K \<le> (?new div kNumSlots K) * kNumSlots K"
        using k by (simp add: mult_right_mono)
      then show ?thesis by (simp add: numSlots_def ht' cd)
    qed
    have launched: "\<exists>control entryPointIdx k. SetupAggregation control entryPointIdx k
           \<in> set (drop (length (ops dev)) (ops dev'))"
      unfolding ops' by auto
    have new: "\<exists>program buffer.
           exe = Some program \<and>
           buf_size buffer = cdiv ?new (kNumSlots K) * sizeofGpuBucketMembers K \<and>
           arena_next (arena state) \<le> buf_addr buffer \<and>
           arena_next (arena state') = buf_addr buffer + nat (buf_size buffer) \<and>
           arena_free (arena state') + buf_size buffer \<le> arena_free (arena state) \<and>
           (buf_addr (buffers state ! 1) < arena_next (arena state) \<longrightarrow>
              buf_addr buffer \<noteq> buf_addr (buffers state ! 1)) \<and>
           buffers state' ! 1 = buffer \<and>
           hashTable state' = (hashTable state)
             \<lparr>sizeMask := cdiv ?new (kNumSlots K) - 1,
              buckets := buf_addr buffer,
              maxEntries := cdiv ?new 6 * 5\<rparr> \<and>
           ops dev' = ops dev @
             [StreamFromReserve, PrefetchToHost (alignedHead state) (alignedHeadSize state), Wait,
              Memset (buf_addr buffer) 0 (buf_size buffer),
              PrefetchToDevice (alignedHead state) (alignedHeadSize state),
              SetupAggregation
                \<lparr>ctl_head = alignedHead state,
                 ctl_oldBuckets = buf_addr (buffers state ! 1),
                 ctl_numOldBuckets = sizeMask (hashTable state) + 1\<rparr>
                (entryPointIdxBySerial program (agg_serial agg)) (kernel program),
              Wait, ReleaseStream]"
      using rehash(5) sz fresh behind less other bf' ht' ops'
      by (intro exI[of _ program] exI[of _ buffer] conjI)
    from new gt grow launched show ?thesis by simp
  next
    case (keep state1)
    from resupply_partitions_state[OF keep(2)] have sh: "same_head state state1" by simp
    then obtain extra where
      ht1: "hashTable state1 = hashTable state" and ah1: "alignedHead state1 = alignedHead state"
      and as1: "alignedHeadSize state1 = alignedHeadSize state"
      and b1: "buffers state1 = buffers state @ extra"
      by (auto simp: same_head_def)
    have b11: "buffers state1 ! 1 = buffers state ! 1" using bk b1 by (simp add: nth_append)
    have le: "\<not> numSlots K (hashTable state) < ?new" using keep(3) ht1 by simp
    have ht': "hashTable state' = hashTable state"
      using keep(4) ht1 setSizesToSafe_head[of state1] by simp
    have bf': "buffers state' ! 1 = buffers state ! 1"
      using keep(4) b11 setSizesToSafe_head[of state1] by simp
    have ops': "ops dev' = ops dev @
          [StreamFromReserve, PrefetchToHost (alignedHead state) (alignedHeadSize state), Wait,
           PrefetchToDevice (alignedHead state) (alignedHeadSize state),
           Wait, ReleaseStream]"
      unfolding keep(5) resupply_dev1_def
      using setSizesToSafe_head[of state1] ah1 as1 by simp
    have none: "\<not> (\<exists>control entryPointIdx k. SetupAggregation control entryPointIdx k
           \<in> set (drop (length (ops dev)) (ops dev')))"
      unfolding ops' by auto
    from ht' bf' ops' le none show ?thesis by auto
  qed
qed

text \<open>
  The witness: the table of the scenario, with 64 slots and a target of 256, is rehashed,
  and its new bucket array of 1024 bytes is not the old one; resupplied again with 256
  slots it is not rehashed.
\<close>

theorem resupplyHashTable_rehash_iff_witness:
  "1 < length (buffers scenario_state) \<and>
   numSlots scenario_constants (hashTable scenario_state)
     < resupply_newSize scenario_constants scenario_stream (hashTable scenario_state) \<and>
   (\<exists>state' dev'.
      resupplyHashTable scenario_constants scenario_stream scenario_aggregation
        (Some scenario_program) scenario_state scenario_device = Inr (state', dev') \<and>
      sizeMask (hashTable state') = 63 \<and> maxEntries (hashTable state') = 210 \<and>
      buckets (hashTable state') = buf_addr (buffers state' ! 1) \<and>
      buf_addr (buffers state' ! 1) \<noteq> buf_addr (buffers scenario_state ! 1) \<and>
      arena_next (arena scenario_state) \<le> buf_addr (buffers state' ! 1) \<and>
      arena_next (arena state') = buf_addr (buffers state' ! 1) + 1024 \<and>
      numSlots scenario_constants (hashTable scenario_state)
        \<le> numSlots scenario_constants (hashTable state')) \<and>
   1 < length (buffers scenario_rehashed) \<and>
   \<not> numSlots scenario_constants (hashTable scenario_rehashed)
       < resupply_newSize scenario_constants scenario_stream (hashTable scenario_rehashed) \<and>
   (\<exists>state' dev'.
      resupplyHashTable scenario_constants scenario_stream scenario_aggregation
        (Some scenario_program) scenario_rehashed scenario_device = Inr (state', dev') \<and>
      hashTable state' = hashTable scenario_rehashed \<and>
      buffers state' ! 1 = buffers scenario_rehashed ! 1)"
proof -
  have bk: "1 < length (buffers scenario_state)" by (simp add: scenario_state_fields)
  have gt: "numSlots scenario_constants (hashTable scenario_state)
     < resupply_newSize scenario_constants scenario_stream (hashTable scenario_state)"
    unfolding scenario_newSize
    by (simp add: numSlots_def scenario_state_fields scenario_constants_def)
  have k: "0 < kNumSlots scenario_constants" by (simp add: scenario_constants_def)
  from resupplyHashTable_rehash_iff[OF scenario_resupply bk, THEN conjunct1, THEN mp, OF gt]
    resupplyHashTable_rehash_iff[OF scenario_resupply bk, THEN conjunct2, THEN conjunct2,
      THEN conjunct2, THEN mp, OF k]
  obtain buffer where
    b: "buffers (setSizesToSafe scenario_rehashed) ! 1 = buffer"
    and sz: "buf_size buffer = cdiv (resupply_newSize scenario_constants scenario_stream
                                  (hashTable scenario_state)) (kNumSlots scenario_constants)
                               * sizeofGpuBucketMembers scenario_constants"
    and fr: "arena_next (arena scenario_state) \<le> buf_addr buffer"
    and bh: "arena_next (arena (setSizesToSafe scenario_rehashed))
               = buf_addr buffer + nat (buf_size buffer)"
    and ot: "buf_addr (buffers scenario_state ! 1) < arena_next (arena scenario_state) \<longrightarrow>
               buf_addr buffer \<noteq> buf_addr (buffers scenario_state ! 1)"
    and h: "hashTable (setSizesToSafe scenario_rehashed) = (hashTable scenario_state)
             \<lparr>sizeMask := cdiv (resupply_newSize scenario_constants scenario_stream
                                  (hashTable scenario_state)) (kNumSlots scenario_constants) - 1,
              buckets := buf_addr buffer,
              maxEntries := cdiv (resupply_newSize scenario_constants scenario_stream
                                    (hashTable scenario_state)) 6 * 5\<rparr>"
    and g: "numSlots scenario_constants (hashTable scenario_state)
              \<le> numSlots scenario_constants (hashTable (setSizesToSafe scenario_rehashed))"
    by blast
  have 1: "\<exists>state' dev'.
      resupplyHashTable scenario_constants scenario_stream scenario_aggregation
        (Some scenario_program) scenario_state scenario_device = Inr (state', dev') \<and>
      sizeMask (hashTable state') = 63 \<and> maxEntries (hashTable state') = 210 \<and>
      buckets (hashTable state') = buf_addr (buffers state' ! 1) \<and>
      buf_addr (buffers state' ! 1) \<noteq> buf_addr (buffers scenario_state ! 1) \<and>
      arena_next (arena scenario_state) \<le> buf_addr (buffers state' ! 1) \<and>
      arena_next (arena state') = buf_addr (buffers state' ! 1) + 1024 \<and>
      numSlots scenario_constants (hashTable scenario_state)
        \<le> numSlots scenario_constants (hashTable state')"
  proof -
    have h': "hashTable (setSizesToSafe scenario_rehashed) = (hashTable scenario_state)
             \<lparr>sizeMask := 63, buckets := buf_addr buffer, maxEntries := 210\<rparr>"
      unfolding h scenario_newSize by (simp add: scenario_constants_def cdiv_def)
    have "sizeMask (hashTable (setSizesToSafe scenario_rehashed)) = 63"
      "maxEntries (hashTable (setSizesToSafe scenario_rehashed)) = 210"
      "buckets (hashTable (setSizesToSafe scenario_rehashed))
         = buf_addr (buffers (setSizesToSafe scenario_rehashed) ! 1)"
      unfolding h' b by simp_all
    moreover have old: "buf_addr (buffers scenario_state ! 1) < arena_next (arena scenario_state)"
      by (simp add: scenario_state_fields)
    have "buf_addr (buffers (setSizesToSafe scenario_rehashed) ! 1)
                    \<noteq> buf_addr (buffers scenario_state ! 1)"
      unfolding b by (rule mp[OF ot old])
    moreover have "arena_next (arena scenario_state)
                     \<le> buf_addr (buffers (setSizesToSafe scenario_rehashed) ! 1)"
      unfolding b by (rule fr)
    moreover have "buf_size buffer = 1024"
      unfolding sz scenario_newSize by (simp add: scenario_constants_def cdiv_def)
    then have "arena_next (arena (setSizesToSafe scenario_rehashed))
                 = buf_addr (buffers (setSizesToSafe scenario_rehashed) ! 1) + 1024"
      unfolding b bh by simp
    ultimately show ?thesis using scenario_resupply g
      by (intro exI[of _ "setSizesToSafe scenario_rehashed"] exI conjI)
  qed
  have bk2: "1 < length (buffers scenario_rehashed)" by (simp add: scenario_rehashed_def)
  have ht: "hashTable scenario_rehashed =
      \<lparr>sizeMask = 63, partitionMask = 1, numDistinct = 50, maxEntries = 210, buckets = 65536\<rparr>"
    by (simp add: scenario_rehashed_def)
  have le: "\<not> numSlots scenario_constants (hashTable scenario_rehashed)
       < resupply_newSize scenario_constants scenario_stream (hashTable scenario_rehashed)"
  proof -
    have "resupply_newSize scenario_constants scenario_stream (hashTable scenario_rehashed) = 256"
      by (simp add: resupply_newSize_def scenario_numFailed nextPowerOfTwo_def
          nextPowerOfTwo_from.simps ht)
    then show ?thesis by (simp add: numSlots_def ht scenario_constants_def)
  qed
  note kept = resupplyHashTable_rehash_iff[OF scenario_resupply_again bk2,
      THEN conjunct2, THEN conjunct1, THEN mp, OF le]
  from kept[THEN conjunct1] kept[THEN conjunct2, THEN conjunct1] scenario_resupply_again
  have 2: "\<exists>state' dev'.
      resupplyHashTable scenario_constants scenario_stream scenario_aggregation
        (Some scenario_program) scenario_rehashed scenario_device = Inr (state', dev') \<and>
      hashTable state' = hashTable scenario_rehashed \<and>
      buffers state' ! 1 = buffers scenario_rehashed ! 1"
    by (intro exI conjI)
  from bk gt 1 bk2 le 2 show ?thesis by (intro conjI)
qed

subsection \<open>resupplyHashTable: the capacity of the partitions\<close>

text \<open>
  C3, as amended.  Let \<^verbatim>\<open>resupplyHashTable\<close> return, with a positive row size, an
  increment that fits the \<^verbatim>\<open>int32_t\<close> size of \<^verbatim>\<open>restockAllocator\<close> and a table that
  ends with no more distinct rows than entries.  Then the allocator of every partition is
  the result of three steps:
  \<^verbatim>\<open>clearOverflows\<close>; then \<^verbatim>\<open>restockAllocator\<close> with the increment, exactly when the
  available fixed capacity was below the increment; then the reclamp of
  \<^verbatim>\<open>setSizesToSafe\<close>: when the available fixed capacity in rows exceeds the share
  \<open>(maxEntries - numDistinct) / numPartitions\<close> of the header as it is after a rehash, the
  partition is trimmed and ends with exactly the share available, and otherwise the
  partition is left as the second step made it.  The available fixed capacity at the end
  is not bounded below by the increment.
\<close>

theorem resupplyHashTable_partition_capacity:
  assumes ret: "resupplyHashTable K stream agg exe state dev = Inr (state', dev')"
    and rs: "0 < hpa_rowSize (allocators state 0)"
    and lo: "- (2 ^ 31) \<le> resupply_increment K stream agg (hashTable state)"
    and hi: "resupply_increment K stream agg (hashTable state) < 2 ^ 31"
    and room: "numDistinct (hashTable state') \<le> maxEntries (hashTable state')"
    and i: "int i < partitionMask (hashTable state) + 1"
  shows "\<exists>a. (if availableFixed (clearOverflows (allocators state i))
                    < resupply_increment K stream agg (hashTable state)
               then (\<exists>st st'. restockAllocator st (resupply_increment K stream agg (hashTable state))
                                (clearOverflows (allocators state i)) = Inr (st', a))
               else a = clearOverflows (allocators state i)) \<and>
              (if cdiv (maxEntries (hashTable state') - numDistinct (hashTable state'))
                       (partitionMask (hashTable state') + 1)
                    < cdiv (availableFixed a) (hpa_rowSize (allocators state 0))
               then allocators state' i =
                      trimRows a (cdiv (maxEntries (hashTable state') - numDistinct (hashTable state'))
                                       (partitionMask (hashTable state') + 1)
                                  * hpa_rowSize (allocators state 0)) \<and>
                    availableFixed (allocators state' i) =
                      cdiv (maxEntries (hashTable state') - numDistinct (hashTable state'))
                           (partitionMask (hashTable state') + 1)
                        * hpa_rowSize (allocators state 0)
               else allocators state' i = a)"
proof -
  let ?inc = "resupply_increment K stream agg (hashTable state)"
  let ?rowSize = "hpa_rowSize (allocators state 0)"
  let ?allowed = "cdiv (maxEntries (hashTable state') - numDistinct (hashTable state'))
                       (partitionMask (hashTable state') + 1)"
  have final: ?thesis
    if loop: "resupply_partitions ?inc (partitionMask (hashTable state) + 1) 0 state = Inr state1"
      and st': "state' = setSizesToSafe state2"
      and al2: "allocators state2 = allocators state1"
      and pm2: "partitionMask (hashTable state2) = partitionMask (hashTable state)"
    for state1 state2
  proof -
    let ?a = "allocators state1 i"
    from resupply_partitions_allocators[OF loop, of i] i have
      rs1: "hpa_rowSize (allocators state1 0) = ?rowSize"
      and pd: "partition_done ?inc (allocators state i) ?a"
      by simp_all
    have step2: "if availableFixed (clearOverflows (allocators state i)) < ?inc
               then (\<exists>st st'. restockAllocator st ?inc (clearOverflows (allocators state i))
                                = Inr (st', ?a))
               else ?a = clearOverflows (allocators state i)"
      using pd unfolding partition_done_def narrow32_id[OF lo hi] .
    have ht: "hashTable state' = hashTable state2" unfolding st' by (simp add: setSizesToSafe_head)
    have eq: "allocators state' i = setSizesToSafe_allocator ?rowSize ?allowed ?a"
      unfolding ht unfolding st' setSizesToSafe_allocators using i pm2 al2 rs1 by simp
    have parts: "0 < partitionMask (hashTable state') + 1" using i pm2 ht by simp
    have "0 \<le> (maxEntries (hashTable state') - numDistinct (hashTable state'))
                 div (partitionMask (hashTable state') + 1)"
      using room parts by (simp add: pos_imp_zdiv_nonneg_iff)
    then have allowed: "0 \<le> ?allowed" using room parts by (simp add: cdiv_nonneg)
    have step3: "if ?allowed < cdiv (availableFixed ?a) ?rowSize
               then allocators state' i = trimRows ?a (?allowed * ?rowSize) \<and>
                    availableFixed (allocators state' i) = ?allowed * ?rowSize
               else allocators state' i = ?a"
    proof (cases "?allowed < cdiv (availableFixed ?a) ?rowSize")
      case True
      have "availableFixed (allocators state' i) = ?allowed * ?rowSize"
        unfolding eq setSizesToSafe_allocator_available[OF rs allowed] using True by simp
      moreover have "allocators state' i = trimRows ?a (?allowed * ?rowSize)"
        unfolding eq using True by (simp add: setSizesToSafe_allocator_def Let_def)
      ultimately show ?thesis using True by simp
    next
      case False
      then show ?thesis unfolding eq by (simp add: setSizesToSafe_allocator_def Let_def)
    qed
    from step2 step3 show ?thesis by (intro exI[of _ ?a] conjI)
  qed
  from ret show ?thesis
  proof (cases rule: resupplyHashTable_Inr)
    case (rehash state1 state2 dev2 oldBuckets numOldBuckets program)
    from resupply_partitions_allocators[OF rehash(2), of i] have
      ht1: "hashTable state1 = hashTable state" by simp
    from resupply_rehash_Inr[OF rehash(4)] have
      "allocators state2 = allocators state1"
      "partitionMask (hashTable state2) = partitionMask (hashTable state1)"
      by auto
    with ht1 show ?thesis using final[OF rehash(2) rehash(6)] by simp
  next
    case (keep state1)
    from resupply_partitions_allocators[OF keep(2), of i] have
      ht1: "hashTable state1 = hashTable state" by simp
    then show ?thesis using final[OF keep(2) keep(4)] by simp
  qed
qed

text \<open>
  The witness: the first partition of the scenario with 64 bytes left is restocked with the
  increment of 1648 bytes, which gives it 1696 bytes; its share after the rehash is 80 rows,
  and it is trimmed to 1280 bytes.
\<close>

theorem resupplyHashTable_partition_capacity_witness:
  "0 < hpa_rowSize (allocators scenario_short_state 0) \<and>
   resupply_increment scenario_constants scenario_stream scenario_aggregation
     (hashTable scenario_short_state) = 1648 \<and>
   int 0 < partitionMask (hashTable scenario_short_state) + 1 \<and>
   availableFixed (clearOverflows (allocators scenario_short_state 0)) = 64 \<and>
   (\<exists>state' dev' a st st'.
      resupplyHashTable scenario_constants scenario_stream scenario_aggregation
        (Some scenario_program) scenario_short_state scenario_device = Inr (state', dev') \<and>
      numDistinct (hashTable state') = 50 \<and> maxEntries (hashTable state') = 210 \<and>
      restockAllocator st 1648 (clearOverflows (allocators scenario_short_state 0)) = Inr (st', a) \<and>
      availableFixed a = 1696 \<and>
      allocators state' 0 = trimRows a 1280 \<and>
      availableFixed (allocators state' 0) = 1280)"
proof -
  let ?inc = "resupply_increment scenario_constants scenario_stream scenario_aggregation
     (hashTable scenario_short_state)"
  let ?final = "setSizesToSafe scenario_short_rehashed"
  have inc: "?inc = 1648"
    unfolding scenario_short_fields(4) by (rule scenario_increment)
  have rs: "hpa_rowSize (allocators scenario_short_state 0) = 16"
    by (simp add: scenario_short_fields scenario_partition_def)
  have rs0: "0 < hpa_rowSize (allocators scenario_short_state 0)" using rs by simp
  have pm: "int 0 < partitionMask (hashTable scenario_short_state) + 1"
    by (simp add: scenario_short_fields scenario_state_fields)
  have lo: "- (2 ^ 31) \<le> ?inc" and hi: "?inc < 2 ^ 31" unfolding inc by simp_all
  have ht: "hashTable ?final =
      \<lparr>sizeMask = 63, partitionMask = 1, numDistinct = 50, maxEntries = 210, buckets = 67184\<rparr>"
    by (simp add: setSizesToSafe_head scenario_short_rehashed_def)
  have room: "numDistinct (hashTable ?final) \<le> maxEntries (hashTable ?final)"
    unfolding ht by simp
  have cl: "clearOverflows (allocators scenario_short_state 0) = scenario_partition 8192 250"
    by (simp add: scenario_short_fields clearOverflows_def scenario_partition_def
        range_clearOverflows_def AllocationRange_default_def)
  have av: "availableFixed (clearOverflows (allocators scenario_short_state 0)) = 64"
    unfolding cl
    by (simp add: availableFixed_def scenario_partition_def range_availableFixed_def
        AllocationRange_default_def)
  have allowed: "cdiv (maxEntries (hashTable ?final) - numDistinct (hashTable ?final))
                      (partitionMask (hashTable ?final) + 1) = 80"
    unfolding ht by (simp add: cdiv_def)
  from resupplyHashTable_partition_capacity[OF scenario_short_resupply rs0 lo hi room pm]
  obtain a where
    step2: "if availableFixed (clearOverflows (allocators scenario_short_state 0)) < ?inc
            then (\<exists>st st'. restockAllocator st ?inc
                     (clearOverflows (allocators scenario_short_state 0)) = Inr (st', a))
            else a = clearOverflows (allocators scenario_short_state 0)"
    and step3: "if 80 < cdiv (availableFixed a) 16
            then allocators ?final 0 = trimRows a (80 * 16) \<and>
                 availableFixed (allocators ?final 0) = 80 * 16
            else allocators ?final 0 = a"
    unfolding allowed rs by blast
  from step2 obtain st st' where
    r: "restockAllocator st 1648 (clearOverflows (allocators scenario_short_state 0)) = Inr (st', a)"
    unfolding av inc by auto
  have ava: "availableFixed a = 1696"
    using r unfolding cl by (rule scenario_short_restock_available)
  have over: "80 < cdiv (availableFixed a) 16" unfolding ava by (simp add: cdiv_def)
  have bytes: "80 * 16 = (1280::int)" by simp
  note trimmed = step3[unfolded if_P[OF over] bytes]
  have t: "allocators ?final 0 = trimRows a 1280" "availableFixed (allocators ?final 0) = 1280"
    by (rule trimmed[THEN conjunct1], rule trimmed[THEN conjunct2])
  have "\<exists>state' dev' a st st'.
      resupplyHashTable scenario_constants scenario_stream scenario_aggregation
        (Some scenario_program) scenario_short_state scenario_device = Inr (state', dev') \<and>
      numDistinct (hashTable state') = 50 \<and> maxEntries (hashTable state') = 210 \<and>
      restockAllocator st 1648 (clearOverflows (allocators scenario_short_state 0)) = Inr (st', a) \<and>
      availableFixed a = 1696 \<and>
      allocators state' 0 = trimRows a 1280 \<and>
      availableFixed (allocators state' 0) = 1280"
    using scenario_short_resupply r ava t ht
    by (intro exI[of _ ?final] exI[of _ a] exI[of _ st] exI[of _ st'] exI conjI) simp_all
  with rs0 inc pm av show ?thesis by (intro conjI)
qed

text \<open>
  The claim as it stands has every partition end with at least the increment available.
  In the scenario the increment is 1648 bytes; both partitions have more than that
  available and are not restocked; the rehash sets the maximum number of entries to 210,
  the share of a partition is 80 rows, and \<^verbatim>\<open>setSizesToSafe\<close> trims both partitions to
  1280 bytes.
\<close>

theorem resupplyHashTable_reclamp_counterexample:
  "resupply_increment scenario_constants scenario_stream scenario_aggregation
     (hashTable scenario_state) = 1648 \<and>
   (case resupplyHashTable scenario_constants scenario_stream scenario_aggregation
           (Some scenario_program) scenario_state scenario_device of
      Inl e \<Rightarrow> None
    | Inr r \<Rightarrow> Some (availableFixed (allocators (fst r) 0),
                     availableFixed (allocators (fst r) (Suc 0))))
   = Some (1280, 1280)"
  by (simp add: scenario_increment scenario_resupply scenario_final_available)

subsection \<open>The continuation decision of AbstractAggregation\<close>

text \<open>
  C5.  \<^verbatim>\<open>AbstractAggregation::canAdvance\<close> returns the empty result, and leaves the stream
  as it is, in each of three cases: there are no grouping keys (whatever the stream
  holds); there is no grid level state because no launch has occurred; the grid level
  state is there and reports zero failures.
\<close>

theorem canAdvance_empty_cases:
  "(keys agg = [] \<longrightarrow> canAdvance agg stream state = (AdvanceResult_init, stream)) \<and>
   (gridStatus stream (instructionStatus agg) = None \<longrightarrow>
      canAdvance agg stream state = (AdvanceResult_init, stream)) \<and>
   (gridStatus stream (instructionStatus agg) = Some g \<and> ar_numDistinct g = 0 \<longrightarrow>
      canAdvance agg stream state = (AdvanceResult_init, stream)) \<and>
   empty_result AdvanceResult_init"
  by (simp add: canAdvance_def empty_result_def AdvanceResult_init_def)

text \<open>
  The witness: an aggregation without keys on a stream that reports failures, an
  aggregation with keys on a stream that was never launched, and one whose last launch
  reported no failure.
\<close>

theorem canAdvance_empty_cases_witness:
  "canAdvance \<lparr>keys = [], instructionStatus = 0, agg_continueLabel = 2, agg_stateId = 1,
               agg_serial = 5, agg_rowSize = 16\<rparr>
     \<lparr>ws_numRows = 10, ws_grid = [0 \<mapsto> \<lparr>ar_numDistinct = 3\<rparr>],
      ws_hostBlockStatus = (\<lambda>b. \<lparr>bs_numRows = 0, bs_errors = (\<lambda>j. kOk)\<rparr>), ws_streamIdx = 0\<rparr>
     (Some 7)
   = (AdvanceResult_init,
      \<lparr>ws_numRows = 10, ws_grid = [0 \<mapsto> \<lparr>ar_numDistinct = 3\<rparr>],
       ws_hostBlockStatus = (\<lambda>b. \<lparr>bs_numRows = 0, bs_errors = (\<lambda>j. kOk)\<rparr>), ws_streamIdx = 0\<rparr>) \<and>
   canAdvance \<lparr>keys = [1], instructionStatus = 0, agg_continueLabel = 2, agg_stateId = 1,
               agg_serial = 5, agg_rowSize = 16\<rparr>
     \<lparr>ws_numRows = 10, ws_grid = Map.empty,
      ws_hostBlockStatus = (\<lambda>b. \<lparr>bs_numRows = 0, bs_errors = (\<lambda>j. kOk)\<rparr>), ws_streamIdx = 0\<rparr>
     (Some 7)
   = (AdvanceResult_init,
      \<lparr>ws_numRows = 10, ws_grid = Map.empty,
       ws_hostBlockStatus = (\<lambda>b. \<lparr>bs_numRows = 0, bs_errors = (\<lambda>j. kOk)\<rparr>), ws_streamIdx = 0\<rparr>) \<and>
   canAdvance \<lparr>keys = [1], instructionStatus = 0, agg_continueLabel = 2, agg_stateId = 1,
               agg_serial = 5, agg_rowSize = 16\<rparr>
     \<lparr>ws_numRows = 10, ws_grid = [0 \<mapsto> \<lparr>ar_numDistinct = 0\<rparr>],
      ws_hostBlockStatus = (\<lambda>b. \<lparr>bs_numRows = 0, bs_errors = (\<lambda>j. kOk)\<rparr>), ws_streamIdx = 0\<rparr>
     (Some 7)
   = (AdvanceResult_init,
      \<lparr>ws_numRows = 10, ws_grid = [0 \<mapsto> \<lparr>ar_numDistinct = 0\<rparr>],
       ws_hostBlockStatus = (\<lambda>b. \<lparr>bs_numRows = 0, bs_errors = (\<lambda>j. kOk)\<rparr>), ws_streamIdx = 0\<rparr>)"
proof -
  let ?hbs = "(\<lambda>b. \<lparr>bs_numRows = 0, bs_errors = (\<lambda>j. kOk)\<rparr>) :: nat \<Rightarrow> BlockStatus"
  let ?nokeys = "\<lparr>keys = [], instructionStatus = 0, agg_continueLabel = 2, agg_stateId = 1,
               agg_serial = 5, agg_rowSize = 16\<rparr>"
  let ?agg = "\<lparr>keys = [1], instructionStatus = 0, agg_continueLabel = 2, agg_stateId = 1,
               agg_serial = 5, agg_rowSize = 16\<rparr>"
  let ?failed = "\<lparr>ws_numRows = 10, ws_grid = [0 \<mapsto> \<lparr>ar_numDistinct = 3\<rparr>],
      ws_hostBlockStatus = ?hbs, ws_streamIdx = 0\<rparr>"
  let ?fresh = "\<lparr>ws_numRows = 10, ws_grid = Map.empty,
      ws_hostBlockStatus = ?hbs, ws_streamIdx = 0\<rparr>"
  let ?clean = "\<lparr>ws_numRows = 10, ws_grid = [0 \<mapsto> \<lparr>ar_numDistinct = 0\<rparr>],
      ws_hostBlockStatus = ?hbs, ws_streamIdx = 0\<rparr>"
  have k: "keys ?nokeys = []" by simp
  have n: "gridStatus ?fresh (instructionStatus ?agg) = None" by (simp add: gridStatus_def)
  have z: "gridStatus ?clean (instructionStatus ?agg) = Some \<lparr>ar_numDistinct = 0\<rparr> \<and>
           ar_numDistinct \<lparr>ar_numDistinct = 0\<rparr> = 0" by (simp add: gridStatus_def)
  from k canAdvance_empty_cases[of ?nokeys ?failed "Some 7"]
  have 1: "canAdvance ?nokeys ?failed (Some 7) = (AdvanceResult_init, ?failed)" by blast
  from n canAdvance_empty_cases[of ?agg ?fresh "Some 7"]
  have 2: "canAdvance ?agg ?fresh (Some 7) = (AdvanceResult_init, ?fresh)" by blast
  from z canAdvance_empty_cases[of ?agg ?clean "Some 7" "\<lparr>ar_numDistinct = 0\<rparr>"]
  have 3: "canAdvance ?agg ?clean (Some 7) = (AdvanceResult_init, ?clean)" by blast
  from 1 2 3 show ?thesis by blast
qed

text \<open>
  C4.  When there are grouping keys and the grid level state reports a nonzero failure
  indicator, \<^verbatim>\<open>AbstractAggregation::canAdvance\<close> returns a result with the row count of
  the stream, the continue label of the instruction, \<open>isRetry\<close> and \<open>syncDrivers\<close>
  set, \<^verbatim>\<open>resupplyHashTable\<close> as the recovery callback and the operator state as payload.
  As a side effect the grid level state of the instruction is cleared, and nothing else
  of the stream changes, so that the same question asked again is answered with the
  empty result.
\<close>

theorem canAdvance_retry:
  assumes "keys agg \<noteq> []"
    and "gridStatus stream (instructionStatus agg) = Some g"
    and "ar_numDistinct g \<noteq> 0"
  shows "numRows (fst (canAdvance agg stream state)) = ws_numRows stream \<and>
         continueLabel (fst (canAdvance agg stream state)) = agg_continueLabel agg \<and>
         isRetry (fst (canAdvance agg stream state)) \<and>
         syncDrivers (fst (canAdvance agg stream state)) \<and>
         updateStatus (fst (canAdvance agg stream state)) = Some ResupplyHashTable \<and>
         reason (fst (canAdvance agg stream state)) = state \<and>
         snd (canAdvance agg stream state) =
           stream\<lparr>ws_grid := (ws_grid stream)(instructionStatus agg \<mapsto> g\<lparr>ar_numDistinct := 0\<rparr>)\<rparr> \<and>
         (\<exists>g'. gridStatus (snd (canAdvance agg stream state)) (instructionStatus agg) = Some g' \<and>
               ar_numDistinct g' = 0) \<and>
         canAdvance agg (snd (canAdvance agg stream state)) state =
           (AdvanceResult_init, snd (canAdvance agg stream state))"
proof -
  let ?stream' = "stream\<lparr>ws_grid := (ws_grid stream)(instructionStatus agg \<mapsto> g\<lparr>ar_numDistinct := 0\<rparr>)\<rparr>"
  let ?r = "AdvanceResult_init\<lparr>numRows := ws_numRows stream, continueLabel := agg_continueLabel agg,
              isRetry := True, syncDrivers := True, updateStatus := Some ResupplyHashTable,
              reason := state\<rparr>"
  have grid: "ws_grid stream (instructionStatus agg) = Some g"
    using assms(2) by (simp add: gridStatus_def)
  have call: "canAdvance agg stream state = (?r, ?stream')"
    using assms grid
    by (simp add: canAdvance_def gridStatus_def clearGridStatus_def checkBlockStatuses_def)
  have again: "canAdvance agg ?stream' state = (AdvanceResult_init, ?stream')"
    using assms(1) by (simp add: canAdvance_def gridStatus_def)
  have cleared: "gridStatus ?stream' (instructionStatus agg) = Some (g\<lparr>ar_numDistinct := 0\<rparr>)"
    by (simp add: gridStatus_def)
  show ?thesis
    unfolding call fst_conv snd_conv using again cleared by simp
qed

theorem canAdvance_retry_witness:
  "keys \<lparr>keys = [1], instructionStatus = 0, agg_continueLabel = 2, agg_stateId = 1,
         agg_serial = 5, agg_rowSize = 16\<rparr> \<noteq> [] \<and>
   fst (canAdvance \<lparr>keys = [1], instructionStatus = 0, agg_continueLabel = 2, agg_stateId = 1,
                    agg_serial = 5, agg_rowSize = 16\<rparr>
          \<lparr>ws_numRows = 10, ws_grid = [0 \<mapsto> \<lparr>ar_numDistinct = 3\<rparr>],
           ws_hostBlockStatus = (\<lambda>b. \<lparr>bs_numRows = 0, bs_errors = (\<lambda>j. kOk)\<rparr>), ws_streamIdx = 0\<rparr>
          (Some 7))
   = \<lparr>numRows = 10, continueLabel = 2, isRetry = True, syncDrivers = True, syncStreams = False,
      updateStatus = Some ResupplyHashTable, reason = Some 7\<rparr> \<and>
   ws_grid (snd (canAdvance \<lparr>keys = [1], instructionStatus = 0, agg_continueLabel = 2, agg_stateId = 1,
                    agg_serial = 5, agg_rowSize = 16\<rparr>
          \<lparr>ws_numRows = 10, ws_grid = [0 \<mapsto> \<lparr>ar_numDistinct = 3\<rparr>],
           ws_hostBlockStatus = (\<lambda>b. \<lparr>bs_numRows = 0, bs_errors = (\<lambda>j. kOk)\<rparr>), ws_streamIdx = 0\<rparr>
          (Some 7))) 0 = Some \<lparr>ar_numDistinct = 0\<rparr>"
proof -
  let ?agg = "\<lparr>keys = [1], instructionStatus = 0, agg_continueLabel = 2, agg_stateId = 1,
               agg_serial = 5, agg_rowSize = 16\<rparr>"
  let ?stream = "\<lparr>ws_numRows = 10, ws_grid = [0 \<mapsto> \<lparr>ar_numDistinct = 3\<rparr>],
      ws_hostBlockStatus = (\<lambda>b. \<lparr>bs_numRows = 0, bs_errors = (\<lambda>j. kOk)\<rparr>), ws_streamIdx = 0\<rparr>"
  have k: "keys ?agg \<noteq> []" by simp
  have g: "gridStatus ?stream (instructionStatus ?agg) = Some \<lparr>ar_numDistinct = 3\<rparr>"
    by (simp add: gridStatus_def)
  have f: "ar_numDistinct \<lparr>ar_numDistinct = 3\<rparr> \<noteq> 0" by simp
  note r = canAdvance_retry[OF k g f, of "Some 7"]
  have res: "fst (canAdvance ?agg ?stream (Some 7))
      = \<lparr>numRows = 10, continueLabel = 2, isRetry = True, syncDrivers = True, syncStreams = False,
         updateStatus = Some ResupplyHashTable, reason = Some 7\<rparr>"
    by (simp add: canAdvance_def gridStatus_def clearGridStatus_def checkBlockStatuses_def
        AdvanceResult_init_def)
  from r have "snd (canAdvance ?agg ?stream (Some 7)) =
      ?stream\<lparr>ws_grid := (ws_grid ?stream)(instructionStatus ?agg \<mapsto> \<lparr>ar_numDistinct = 3\<rparr>\<lparr>ar_numDistinct := 0\<rparr>)\<rparr>"
    by blast
  then have "ws_grid (snd (canAdvance ?agg ?stream (Some 7))) 0 = Some \<lparr>ar_numDistinct = 0\<rparr>"
    by simp
  with k res show ?thesis by blast
qed

subsection \<open>The grouped result drain: excess reader streams\<close>

text \<open>
  C9.  On a grouped aggregation, a call of \<^verbatim>\<open>AbstractReadAggregation::canAdvance\<close> from a
  stream whose index is at least the configured maximum number of read streams returns
  the empty result and leaves the operator state, with its drain cursor, and the device
  as they are.
\<close>

theorem read_canAdvance_excess_stream:
  assumes "isGrouped aggState"
    and "ws_streamIdx stream \<ge> maxReadStreams aggState"
  shows "read_canAdvance batchRows inst stream aggState dev = Some (Inr (AdvanceResult_init, aggState, dev)) \<and>
         empty_result AdvanceResult_init"
  using assms by (simp add: read_canAdvance_def empty_result_def AdvanceResult_init_def)

text \<open>The witness: stream 2 on the state of the scenario, which allows two read streams.\<close>

theorem read_canAdvance_excess_stream_witness:
  "isGrouped scenario_state \<and>
   maxReadStreams scenario_state \<le> ws_streamIdx (scenario_stream\<lparr>ws_streamIdx := 2\<rparr>) \<and>
   read_canAdvance 81920 \<lparr>ragg_continueLabel = 3\<rparr> (scenario_stream\<lparr>ws_streamIdx := 2\<rparr>)
     scenario_state scenario_device
   = Some (Inr (AdvanceResult_init, scenario_state, scenario_device))"
proof -
  have g: "isGrouped scenario_state" by (simp add: scenario_state_def)
  have m: "maxReadStreams scenario_state \<le> ws_streamIdx (scenario_stream\<lparr>ws_streamIdx := 2\<rparr>)"
    by (simp add: scenario_state_def)
  from read_canAdvance_excess_stream[OF g m, of 81920 "\<lparr>ragg_continueLabel = 3\<rparr>" scenario_device]
    g m show ?thesis by blast
qed

end
